theory Spec2Isabelle
  imports Complex_Main
begin

section \<open>Numeric model\<close>

text \<open>
  The module \<^verbatim>\<open>valuations.py\<close> is Python 2 code over Python floats and numpy
  \<^verbatim>\<open>float64\<close> arrays. Floats are modelled by real numbers: rounding and overflow
  are outside this model (the one-line \<^verbatim>\<open>gordon_growth_model\<close> is also evaluated on
  doubles, below, for the properties that rounding decides). What is kept is the
  difference between the two kinds of division. A Python float divided by zero
  raises \<^verbatim>\<open>ZeroDivisionError\<close>; a numpy
  value divided by zero raises nothing (a warning is printed) and yields
  \<^verbatim>\<open>inf\<close>, \<^verbatim>\<open>-inf\<close> or \<^verbatim>\<open>nan\<close>. These three are collapsed into the one
  value \<open>NonFin\<close>.
\<close>

datatype exn =
  IndexError | ZeroDivisionError | ValueError | NameError string | AttributeError string

datatype npfloat = Fin real | NonFin

text \<open>Sequencing of fallible steps: the first raised exception is the result.\<close>

definition bind_res :: "exn + 'a \<Rightarrow> ('a \<Rightarrow> exn + 'b) \<Rightarrow> exn + 'b" where
  "bind_res m f = (case m of Inl e \<Rightarrow> Inl e | Inr x \<Rightarrow> f x)"

text \<open>\<^verbatim>\<open>a / b\<close> on Python floats.\<close>

definition py_truediv :: "real \<Rightarrow> real \<Rightarrow> exn + real" where
  "py_truediv a b = (if b = 0 then Inl ZeroDivisionError else Inr (a / b))"

text \<open>\<^verbatim>\<open>a / b\<close> where \<open>a\<close> is a numpy value and \<open>b\<close> a finite float.\<close>

fun np_truediv :: "npfloat \<Rightarrow> real \<Rightarrow> npfloat" where
  "np_truediv (Fin a) b = (if b = 0 then NonFin else Fin (a / b))"
| "np_truediv NonFin b = NonFin"

section \<open>Gordon growth model\<close>

text \<open>
  \<^verbatim>\<open>
  def gordon_growth_model(current_div, const_growth, discount):
      return (current_div*(1+const_growth))/(discount-const_growth)
  \<close>
  The arguments are Python floats, so the only exception is the division by zero.
\<close>

definition gordon_growth_model :: "real \<Rightarrow> real \<Rightarrow> real \<Rightarrow> exn + real" where
  "gordon_growth_model current_div const_growth discount =
     py_truediv (current_div * (1 + const_growth)) (discount - const_growth)"

subsection \<open>The same line on doubles\<close>

text \<open>
  Whether two different inputs give two different results depends on rounding, so for
  the order properties of \<^verbatim>\<open>gordon_growth_model\<close> the line is evaluated a second time,
  on IEEE 754 binary64 values with every operation rounded to nearest, ties to even.
  A double is a real number that rounding leaves unchanged, or one of the two
  infinities, or a NaN; the two signed zeros are one value here (Python raises
  \<^verbatim>\<open>ZeroDivisionError\<close> for a division by either).
\<close>

datatype f64 = Finite real | PosInf | NegInf | NaN

text \<open>Rounding of a real to the nearest integer, ties to the even one.\<close>

definition rne :: "real \<Rightarrow> int" where
  "rne y = (let f = \<lfloor>y\<rfloor>; r = y - of_int f in
            if r < 1/2 then f else if 1/2 < r then f + 1 else if even f then f else f + 1)"

text \<open>
  The exponent of the binade of \<open>x\<close>: at least \<open>-1022\<close>, so that below \<open>2 powi (- 1022)\<close>
  the spacing of the doubles stays \<open>2 powi (- 1074)\<close> (the subnormal numbers).
\<close>

definition binade :: "real \<Rightarrow> int" where
  "binade x = max \<lfloor>log 2 \<bar>x\<bar>\<rfloor> (- 1022)"

text \<open>The nearest multiple of the spacing \<open>2 powi (binade x - 52)\<close>, 53 bits of precision.\<close>

definition nearest :: "real \<Rightarrow> real" where
  "nearest x = (let q = 2 powi (binade x - 52) in of_int (rne (x / q)) * q)"

text \<open>The rounded result overflows to an infinity from \<open>2 ^ 1024\<close> on.\<close>

definition round_f64 :: "real \<Rightarrow> f64" where
  "round_f64 x =
     (if x = 0 then Finite 0
      else (let y = nearest x in
            if 2 ^ 1024 \<le> y then PosInf
            else if y \<le> - (2 ^ 1024) then NegInf
            else Finite y))"

definition is_f64 :: "real \<Rightarrow> bool" where
  "is_f64 x \<longleftrightarrow> round_f64 x = Finite x"

text \<open>\<^verbatim>\<open>a <= b\<close> on doubles: false as soon as one side is a NaN.\<close>

fun f64_le :: "f64 \<Rightarrow> f64 \<Rightarrow> bool" where
  "f64_le NaN _ = False"
| "f64_le _ NaN = False"
| "f64_le NegInf _ = True"
| "f64_le _ PosInf = True"
| "f64_le (Finite a) (Finite b) = (a \<le> b)"
| "f64_le _ _ = False"

fun f64_neg :: "f64 \<Rightarrow> f64" where
  "f64_neg (Finite a) = Finite (- a)"
| "f64_neg PosInf = NegInf"
| "f64_neg NegInf = PosInf"
| "f64_neg NaN = NaN"

fun f64_add :: "f64 \<Rightarrow> f64 \<Rightarrow> f64" where
  "f64_add (Finite a) (Finite b) = round_f64 (a + b)"
| "f64_add NaN _ = NaN"
| "f64_add _ NaN = NaN"
| "f64_add PosInf NegInf = NaN"
| "f64_add NegInf PosInf = NaN"
| "f64_add PosInf _ = PosInf"
| "f64_add NegInf _ = NegInf"
| "f64_add (Finite a) b = b"

definition f64_sub :: "f64 \<Rightarrow> f64 \<Rightarrow> f64" where
  "f64_sub a b = f64_add a (f64_neg b)"

text \<open>An infinity times a finite factor: NaN for zero, else the sign decides.\<close>

definition f64_scale_inf :: "real \<Rightarrow> f64 \<Rightarrow> f64" where
  "f64_scale_inf s i = (if s = 0 then NaN else if 0 < s then i else f64_neg i)"

fun f64_mul :: "f64 \<Rightarrow> f64 \<Rightarrow> f64" where
  "f64_mul (Finite a) (Finite b) = round_f64 (a * b)"
| "f64_mul NaN _ = NaN"
| "f64_mul _ NaN = NaN"
| "f64_mul (Finite a) i = f64_scale_inf a i"
| "f64_mul i (Finite b) = f64_scale_inf b i"
| "f64_mul PosInf i = i"
| "f64_mul NegInf i = f64_neg i"

text \<open>The quotient for a divisor that is not zero.\<close>

fun f64_div :: "f64 \<Rightarrow> f64 \<Rightarrow> f64" where
  "f64_div (Finite a) (Finite b) = round_f64 (a / b)"
| "f64_div NaN _ = NaN"
| "f64_div _ NaN = NaN"
| "f64_div (Finite a) _ = Finite 0"
| "f64_div i (Finite b) = (if 0 \<le> b then i else f64_neg i)"
| "f64_div _ _ = NaN"

text \<open>\<^verbatim>\<open>a / b\<close> on Python floats: a zero divisor raises, whatever the dividend.\<close>

definition f64_truediv :: "f64 \<Rightarrow> f64 \<Rightarrow> exn + f64" where
  "f64_truediv a b = (if b = Finite 0 then Inl ZeroDivisionError else Inr (f64_div a b))"

text \<open>
  \<^verbatim>\<open>(current_div*(1+const_growth))/(discount-const_growth)\<close>, operation by operation;
  the literal \<^verbatim>\<open>1\<close> is converted to the double \<open>1\<close>.
\<close>

definition gordon_growth_model_f64 :: "f64 \<Rightarrow> f64 \<Rightarrow> f64 \<Rightarrow> exn + f64" where
  "gordon_growth_model_f64 current_div const_growth discount =
     f64_truediv (f64_mul current_div (f64_add (Finite 1) const_growth))
                 (f64_sub discount const_growth)"

section \<open>Arrays\<close>

text \<open>
  \<^verbatim>\<open>a[i]\<close> on a numpy array with a Python integer index: a negative index counts from
  the end, and an index outside \<open>-len \<dots> len-1\<close> raises \<^verbatim>\<open>IndexError\<close>.
\<close>

definition np_getitem :: "'a list \<Rightarrow> int \<Rightarrow> exn + 'a" where
  "np_getitem xs i =
     (let n = int (length xs) in
      if 0 \<le> i \<and> i < n then Inr (xs ! nat i)
      else if - n \<le> i \<and> i < 0 then Inr (xs ! nat (i + n))
      else Inl IndexError)"

text \<open>
  \<^verbatim>\<open>np.arange(a, b)\<close> for a start \<open>a \<ge> 0\<close>: the integers \<open>a, \<dots>, b - 1\<close>, none when
  \<open>b \<le> a\<close>. Every use in the module starts at 1 and serves as an exponent.
\<close>

definition arange :: "nat \<Rightarrow> int \<Rightarrow> nat list" where
  "arange a b = [a..<nat b]"

fun np_add :: "npfloat \<Rightarrow> npfloat \<Rightarrow> npfloat" where
  "np_add (Fin a) (Fin b) = Fin (a + b)"
| "np_add _ _ = NonFin"

text \<open>\<^verbatim>\<open>np.sum(a)\<close>, \<^verbatim>\<open>a.sum()\<close> and the builtin \<^verbatim>\<open>sum(a)\<close> of a float array.\<close>

definition np_sum :: "npfloat list \<Rightarrow> npfloat" where
  "np_sum xs = foldr np_add xs (Fin 0)"

fun np_sub :: "npfloat \<Rightarrow> real \<Rightarrow> npfloat" where
  "np_sub (Fin a) b = Fin (a - b)"
| "np_sub NonFin b = NonFin"

text \<open>
  \<^verbatim>\<open>a ** e\<close> for a numpy value \<open>a\<close> and a float exponent \<open>e\<close>: \<^verbatim>\<open>nan\<close> for a negative
  base with a fractional exponent, \<^verbatim>\<open>inf\<close> for zero to a negative power. The one use in
  the module has \<open>e = 1.0/n > 0\<close>, where a non-finite base gives a non-finite power.
\<close>

fun np_power :: "npfloat \<Rightarrow> real \<Rightarrow> npfloat" where
  "np_power (Fin x) e =
     (if 0 < x then Fin (x powr e)
      else if x = 0 then (if e < 0 then NonFin else if e = 0 then Fin 1 else Fin 0)
      else if e = of_int \<lfloor>e\<rfloor> then Fin (x powi \<lfloor>e\<rfloor>)
      else NonFin)"
| "np_power NonFin e = NonFin"

text \<open>
  \<^verbatim>\<open>np.mean(a)\<close> of a non-empty array and \<^verbatim>\<open>np.std(a, ddof)\<close> of an array longer than
  \<open>ddof\<close>. (On shorter arrays numpy yields \<^verbatim>\<open>nan\<close>; \<open>discount_cash_flow\<close> reaches the mean
  only after \<^verbatim>\<open>fcf[0]\<close> and the deviation only after \<^verbatim>\<open>fcf[9]\<close> has been read.)
\<close>

definition np_mean :: "real list \<Rightarrow> real" where
  "np_mean xs = sum_list xs / real (length xs)"

definition np_std :: "real list \<Rightarrow> nat \<Rightarrow> real" where
  "np_std xs ddof =
     sqrt (sum_list (map (\<lambda>x. (x - np_mean xs)\<^sup>2) xs) / real (length xs - ddof))"

section \<open>The random source\<close>

text \<open>
  numpy's global generator is modelled as the stream of standard normal variates it
  will deliver; a call consumes a prefix and hands back the rest.
  \<^verbatim>\<open>np.random.normal(scale=s, size=k)\<close> has mean 0, scales \<open>k\<close> variates by \<open>s\<close>, and
  raises \<^verbatim>\<open>ValueError\<close> for a negative scale.
\<close>

type_synonym rng = "nat \<Rightarrow> real"

definition random_normal :: "real \<Rightarrow> nat \<Rightarrow> rng \<Rightarrow> exn + (real list \<times> rng)" where
  "random_normal scale sz g =
     (if scale < 0 then Inl ValueError
      else Inr (map (\<lambda>k. scale * g k) [0..<sz], \<lambda>k. g (k + sz)))"

definition zero_draws :: rng where
  "zero_draws = (\<lambda>k. 0)"

definition unit_draws :: rng where
  "unit_draws = (\<lambda>k. 1)"

section \<open>Multi-stage dividend discount model\<close>

text \<open>
  \<^verbatim>\<open>
  def div_discount_model(current_div, discount, div_growth_rate1, div_period1=5,
                         div_growth_rate2, div_period2=5, const_growth):
      proj1 = current_div*((1.0+div_growth_rate1)**np.arange(1,div_period1+1))
      proj2 = proj1[len(proj1)-1]*((1.0+div_growth_rate2)**np.arange(1,div_period2+1))
      const = np.array([(proj2[len(proj2)-1]*(1+const_growth))/(discount - const_growth)])
      dis = np.concatenate([proj1,proj2,const])/((1+discount)**np.arange(1,len(proj1)+len(proj2)+len(const)+1))
      val = dis.sum()
      return val
  \<close>
  The parameter list puts parameters without a default after one with a default, which
  the Python compiler rejects, so the file as it stands cannot be imported. Every function
  of the module is modelled from its body, this one with all seven parameters given.
  The terminal value is a numpy value divided by a float: no exception at zero.
\<close>

definition div_discount_model ::
  "real \<Rightarrow> real \<Rightarrow> real \<Rightarrow> int \<Rightarrow> real \<Rightarrow> int \<Rightarrow> real \<Rightarrow> exn + npfloat" where
  "div_discount_model current_div discount div_growth_rate1 div_period1
       div_growth_rate2 div_period2 const_growth =
     (let proj1 = map (\<lambda>k. current_div * (1 + div_growth_rate1) ^ k)
                    (arange 1 (div_period1 + 1)) in
      bind_res (np_getitem proj1 (int (length proj1) - 1)) (\<lambda>last1.
      let proj2 = map (\<lambda>k. last1 * (1 + div_growth_rate2) ^ k)
                    (arange 1 (div_period2 + 1)) in
      bind_res (np_getitem proj2 (int (length proj2) - 1)) (\<lambda>last2.
      let const = [np_truediv (Fin (last2 * (1 + const_growth))) (discount - const_growth)];
          dis = map2 np_truediv (map Fin proj1 @ map Fin proj2 @ const)
                  (map (\<lambda>k. (1 + discount) ^ k)
                     (arange 1 (int (length proj1) + int (length proj2) + int (length const) + 1)))
      in Inr (np_sum dis))))"

section \<open>Earnings formula\<close>

text \<open>
  \<^verbatim>\<open>
  def ben_graham_formula(eps, proj_growth, risk_free_rate=0.025, safe_eps=False,
                         safe_growth=False, adjust=True):
      eps = np.array(eps)
      adjusted_eps = np.mean(eps) if adjust else None
      const = 7 if safe.eps else 8
      g = 1.5 if safe_growth else 2

      val = (eps[10]*(const+g*(proj_growth*100)*4.4))/(risk_free_rate*100)
      if adjust:
          val_adj = (adjust*(const+g*(proj_growth*100)*4.4))/(risk_free_rate*100)
      else:
          val_adj = None
      return val, val_adj
  \<close>
  A name is looked up among the locals of the call and then among the module's globals
  (\<^verbatim>\<open>np\<close> and the four functions); no builtin is called \<^verbatim>\<open>safe\<close>. The values bound
  there are floats, booleans, arrays, \<^verbatim>\<open>None\<close>, and the module and function objects.
\<close>

datatype pyval = PyFloat real | PyBool bool | PyArray "real list" | PyNone | PyObject

definition lookup_name :: "(string \<times> pyval) list \<Rightarrow> string \<Rightarrow> exn + pyval" where
  "lookup_name env x = (case map_of env x of None \<Rightarrow> Inl (NameError x) | Some v \<Rightarrow> Inr v)"

definition module_globals :: "(string \<times> pyval) list" where
  "module_globals =
     [(''np'', PyObject), (''discount_cash_flow'', PyObject),
      (''ben_graham_formula'', PyObject), (''div_discount_model'', PyObject),
      (''gordon_growth_model'', PyObject)]"

text \<open>
  Truth value of the attribute \<^verbatim>\<open>v.eps\<close>: none of the values above has such an
  attribute.
\<close>

definition attr_eps_truth :: "pyval \<Rightarrow> exn + bool" where
  "attr_eps_truth v = Inl (AttributeError ''eps'')"

text \<open>
  \<open>val\<close> is a numpy value (an element of \<^verbatim>\<open>eps\<close> times a float) divided by a float;
  \<open>val_adj\<close> is computed from the flag \<^verbatim>\<open>adjust\<close> itself, which is \<^verbatim>\<open>True\<close> = 1
  there, by a division of Python floats. \<^verbatim>\<open>adjusted_eps\<close> is bound and never read.
\<close>

definition ben_graham_formula ::
  "real list \<Rightarrow> real \<Rightarrow> real \<Rightarrow> bool \<Rightarrow> bool \<Rightarrow> bool \<Rightarrow> exn + (npfloat \<times> real option)" where
  "ben_graham_formula eps proj_growth risk_free_rate safe_eps safe_growth adjust =
     (let adjusted_eps = (if adjust then PyFloat (np_mean eps) else PyNone);
          env = [(''eps'', PyArray eps), (''proj_growth'', PyFloat proj_growth),
                 (''risk_free_rate'', PyFloat risk_free_rate), (''safe_eps'', PyBool safe_eps),
                 (''safe_growth'', PyBool safe_growth), (''adjust'', PyBool adjust),
                 (''adjusted_eps'', adjusted_eps)] @ module_globals in
      bind_res (lookup_name env ''safe'') (\<lambda>safe.
      bind_res (attr_eps_truth safe) (\<lambda>safe_dot_eps.
      let const = (if safe_dot_eps then 7 else 8);
          g = (if safe_growth then 1.5 else 2) in
      bind_res (np_getitem eps 10) (\<lambda>eps10.
      let val = np_truediv (Fin (eps10 * (const + g * (proj_growth * 100) * 4.4)))
                  (risk_free_rate * 100) in
      if adjust then
        bind_res (py_truediv (1 * (const + g * (proj_growth * 100) * 4.4))
                    (risk_free_rate * 100)) (\<lambda>val_adj.
        Inr (val, Some val_adj))
      else Inr (val, None)))))"

section \<open>Discounted cash flow\<close>

text \<open>
  \<^verbatim>\<open>
      fcf = np.array(fcf).astype(float)
      n = len(fcf)-1
      if fcf[0] < 0:
          fcf[0] = np.mean(fcf)
      cagr = (((fcf[n]/fcf[0])**(1.0/n)) - 1)
  \<close>
  The preprocessing and the growth rate: the array as the loop will see it, and
  \<open>cagr\<close>. \<^verbatim>\<open>1.0/n\<close> divides Python numbers and raises at \<open>n = 0\<close>.
\<close>

definition dcf_prepare :: "real list \<Rightarrow> exn + (real list \<times> npfloat)" where
  "dcf_prepare fcf0 =
     (let n = int (length fcf0) - 1 in
      bind_res (np_getitem fcf0 0) (\<lambda>first0.
      let fcf = (if first0 < 0 then fcf0[0 := np_mean fcf0] else fcf0) in
      bind_res (np_getitem fcf n) (\<lambda>fcf_n.
      bind_res (np_getitem fcf 0) (\<lambda>fcf_0.
      bind_res (py_truediv 1 (of_int n)) (\<lambda>e.
      Inr (fcf, np_sub (np_power (np_truediv (Fin fcf_n) fcf_0) e) 1))))))"

text \<open>
  \<^verbatim>\<open>
          proj=fcf[9]*((1+proj_rate1)**(np.arange(1,11)))+np.random.normal(scale=np.std(fcf,ddof=1),size=10)
          proj2=proj[9]*((1+proj_rate2)**(np.arange(1,11)))+np.random.normal(scale=np.std(fcf,ddof=1),size=10)
          projtotal=np.concatenate([proj,proj2])
  \<close>
  The projection of one trial, from the generator's state to the 20 values and the
  state after the 20 draws.
\<close>

definition dcf_project :: "real list \<Rightarrow> real \<Rightarrow> real \<Rightarrow> rng \<Rightarrow> exn + (real list \<times> rng)" where
  "dcf_project fcf proj_rate1 proj_rate2 g =
     bind_res (np_getitem fcf 9) (\<lambda>fcf_9.
     bind_res (random_normal (np_std fcf 1) 10 g) (\<lambda>(noise, g1).
     let proj = map2 (+) (map (\<lambda>k. fcf_9 * (1 + proj_rate1) ^ k) (arange 1 11)) noise in
     bind_res (np_getitem proj 9) (\<lambda>proj_9.
     bind_res (random_normal (np_std fcf 1) 10 g1) (\<lambda>(noise2, g2).
     let proj2 = map2 (+) (map (\<lambda>k. proj_9 * (1 + proj_rate2) ^ k) (arange 1 11)) noise2;
         projtotal = proj @ proj2
     in Inr (projtotal, g2)))))"

text \<open>
  \<^verbatim>\<open>
          dis = projtotal/((1+discount)**np.arange(1,21))
          dis2 = projtotal/((1+d)**np.arange(1,21))
          val1 = np.sum(dis)/shares
          val2=sum(dis2)/shares
  \<close>
\<close>

definition dcf_discount :: "real list \<Rightarrow> real \<Rightarrow> real \<Rightarrow> npfloat" where
  "dcf_discount projtotal rate shares =
     (let dis = map2 np_truediv (map Fin projtotal) (map (\<lambda>k. (1 + rate) ^ k) (arange 1 21))
      in np_truediv (np_sum dis) shares)"

definition dcf_trial ::
  "real list \<Rightarrow> real \<Rightarrow> real \<Rightarrow> real \<Rightarrow> real \<Rightarrow> real \<Rightarrow> rng \<Rightarrow> exn + (npfloat \<times> npfloat \<times> rng)" where
  "dcf_trial fcf proj_rate1 proj_rate2 discount d shares g =
     bind_res (dcf_project fcf proj_rate1 proj_rate2 g) (\<lambda>(projtotal, g').
     let val1 = dcf_discount projtotal discount shares;
         val2 = dcf_discount projtotal d shares
     in Inr (val1, val2, g'))"

text \<open>
  \<^verbatim>\<open>for i in xrange(0,100)\<close>, with \<^verbatim>\<open>val1numbers[i] = val1\<close> and
  \<^verbatim>\<open>val2numbers[i] = val2\<close> at the end of each round. The loop state is the two result
  arrays and the generator.
\<close>

fun dcf_loop ::
  "nat list \<Rightarrow> real list \<Rightarrow> real \<Rightarrow> real \<Rightarrow> real \<Rightarrow> real \<Rightarrow> real \<Rightarrow>
   npfloat list \<times> npfloat list \<times> rng \<Rightarrow> exn + (npfloat list \<times> npfloat list \<times> rng)" where
  "dcf_loop [] fcf proj_rate1 proj_rate2 discount d shares st = Inr st"
| "dcf_loop (i # is) fcf proj_rate1 proj_rate2 discount d shares (val1numbers, val2numbers, g) =
     bind_res (dcf_trial fcf proj_rate1 proj_rate2 discount d shares g) (\<lambda>(val1, val2, g').
     dcf_loop is fcf proj_rate1 proj_rate2 discount d shares
       (val1numbers[i := val1], val2numbers[i := val2], g'))"

text \<open>
  \<^verbatim>\<open>
      val1numbers = np.zeros(shape=100)
      val2numbers = np.zeros(shape=100)
      d = (2.5+beta*(9.11-2.5))/100.0
      for i in xrange(0,100): ...
      return cagr, val1numbers, val2numbers
  \<close>
  The first argument is the state of the random source at the call.
\<close>

definition capm_rate :: "real \<Rightarrow> real" where
  "capm_rate beta = (2.5 + beta * (9.11 - 2.5)) / 100"

definition discount_cash_flow ::
  "rng \<Rightarrow> real list \<Rightarrow> real \<Rightarrow> real \<Rightarrow> real \<Rightarrow> real \<Rightarrow> real \<Rightarrow>
   exn + (npfloat \<times> npfloat list \<times> npfloat list)" where
  "discount_cash_flow g fcf0 proj_rate1 proj_rate2 discount shares beta =
     bind_res (dcf_prepare fcf0) (\<lambda>(fcf, cagr).
     let val1numbers = replicate 100 (Fin 0);
         val2numbers = replicate 100 (Fin 0);
         d = capm_rate beta in
     bind_res (dcf_loop [0..<100] fcf proj_rate1 proj_rate2 discount d shares
                 (val1numbers, val2numbers, g)) (\<lambda>(val1numbers, val2numbers, g').
     Inr (cagr, val1numbers, val2numbers)))"

section \<open>Properties\<close>

lemma gordon_growth_model_value:
  "discount \<noteq> const_growth \<Longrightarrow>
   gordon_growth_model current_div const_growth discount =
     Inr (current_div * (1 + const_growth) / (discount - const_growth))"
  by (simp add: gordon_growth_model_def py_truediv_def)

lemma gordon_increasing_in_dividend:
  assumes "0 < (c::real)" and "-1 < g" and "g < d" and "c < c'"
  shows "c * (1 + g) / (d - g) < c' * (1 + g) / (d - g)"
proof -
  have "c * (1 + g) < c' * (1 + g)" using assms by simp
  moreover have "0 < d - g" using assms by simp
  ultimately show ?thesis by (simp add: divide_strict_right_mono)
qed

lemma gordon_increasing_in_growth:
  assumes "0 < (c::real)" and "-1 < g" and "g < g'" and "g' < d"
  shows "c * (1 + g) / (d - g) < c * (1 + g') / (d - g')"
proof -
  have den: "0 < d - g" and den': "0 < d - g'" using assms by simp_all
  have "c * (1 + g) < c * (1 + g')" using assms by simp
  then have "c * (1 + g) / (d - g) < c * (1 + g') / (d - g)"
    using den by (simp add: divide_strict_right_mono)
  also have "c * (1 + g') / (d - g) \<le> c * (1 + g') / (d - g')"
  proof (rule divide_left_mono)
    show "d - g' \<le> d - g" using assms by simp
    show "0 \<le> c * (1 + g')" using assms by simp
    show "0 < (d - g) * (d - g')" using den den' by simp
  qed
  finally show ?thesis .
qed

lemma gordon_decreasing_in_discount:
  assumes "0 < (c::real)" and "-1 < g" and "g < d" and "d < d'"
  shows "c * (1 + g) / (d' - g) < c * (1 + g) / (d - g)"
proof (rule divide_strict_left_mono)
  show "d - g < d' - g" using assms by simp
  show "0 < c * (1 + g)" using assms by simp
  show "0 < (d' - g) * (d - g)" using assms by simp
qed

subsection \<open>Rounding to the nearest double\<close>

text \<open>
  The strict inequalities of the three lemmas above hold for the formula over the
  reals. On doubles only their weak forms survive, because rounding to the nearest
  double is monotone but not injective.
\<close>

lemma rne_cases: "rne y = \<lfloor>y\<rfloor> \<or> rne y = \<lfloor>y\<rfloor> + 1"
  by (simp add: rne_def Let_def)

lemma rne_of_int [simp]: "rne (of_int k) = k"
  by (simp add: rne_def)

lemma rne_ge_floor: "\<lfloor>y\<rfloor> \<le> rne y"
  using rne_cases [of y] by auto

lemma rne_le_floor_Suc: "rne y \<le> \<lfloor>y\<rfloor> + 1"
  using rne_cases [of y] by auto

lemma rne_mono:
  assumes "a \<le> b"
  shows "rne a \<le> rne b"
proof (cases "\<lfloor>a\<rfloor> = \<lfloor>b\<rfloor>")
  case True
  have "a - of_int \<lfloor>a\<rfloor> \<le> b - of_int \<lfloor>b\<rfloor>" using assms True by simp
  then show ?thesis unfolding rne_def Let_def using True by auto
next
  case False
  have "\<lfloor>a\<rfloor> \<le> \<lfloor>b\<rfloor>" using assms by (rule floor_mono)
  then have "\<lfloor>a\<rfloor> + 1 \<le> \<lfloor>b\<rfloor>" using False by simp
  then show ?thesis using rne_le_floor_Suc [of a] rne_ge_floor [of b] by linarith
qed

lemma rne_nearest:
  assumes "\<bar>y - of_int k\<bar> < 1/2"
  shows "rne y = k"
proof -
  consider "of_int k \<le> y" | "y < of_int k" by linarith
  then show ?thesis
  proof cases
    case 1
    then have "\<lfloor>y\<rfloor> = k" using assms by (intro floor_unique) (auto simp: abs_if split: if_splits)
    then show ?thesis using assms 1 by (simp add: rne_def Let_def)
  next
    case 2
    then have "\<lfloor>y\<rfloor> = k - 1" using assms by (intro floor_unique) (auto simp: abs_if split: if_splits)
    then show ?thesis using assms 2 by (auto simp add: rne_def Let_def abs_if split: if_splits)
  qed
qed

lemma rne_nonneg: "0 \<le> y \<Longrightarrow> 0 \<le> rne y"
  using rne_mono [of 0 y] rne_of_int [of 0] by simp

lemma rne_le_int: "y \<le> of_int k \<Longrightarrow> rne y \<le> k"
  using rne_mono [of y "of_int k"] by simp

lemma rne_ge_int: "of_int k \<le> y \<Longrightarrow> k \<le> rne y"
  using rne_mono [of "of_int k" y] by simp

lemma powr_int_succ: "(2::real) powr (real_of_int k + 1) = 2 powi (k + 1)"
  using powr_real_of_int' [of "2::real" "k + 1"] by simp

lemma floor_log2_bounds:
  assumes "0 < x"
  shows "2 powi \<lfloor>log 2 x\<rfloor> \<le> x" and "x < 2 powi (\<lfloor>log 2 x\<rfloor> + 1)"
proof -
  have "2 powr (of_int \<lfloor>log 2 x\<rfloor>) \<le> x \<and> x < 2 powr (of_int (\<lfloor>log 2 x\<rfloor> + 1))"
    using floor_log_eq_powr_iff [of x 2 "\<lfloor>log 2 x\<rfloor>"] assms by simp
  then show "2 powi \<lfloor>log 2 x\<rfloor> \<le> x" and "x < 2 powi (\<lfloor>log 2 x\<rfloor> + 1)"
    by (simp_all add: powr_real_of_int' powr_int_succ)
qed

lemma floor_log2_eqI:
  assumes "2 powi k \<le> x" and "x < 2 powi (k + 1)"
  shows "\<lfloor>log 2 x\<rfloor> = k"
proof -
  have pos: "0 < x" using assms(1) zero_less_power_int [of "2::real" k] by linarith
  have "2 powr (of_int k) \<le> x \<and> x < 2 powr (of_int (k + 1))"
    using assms by (simp add: powr_real_of_int' powr_int_succ)
  then show ?thesis using floor_log_eq_powr_iff [of x 2 k] pos by simp
qed

lemma floor_log2_mono: "0 < x \<Longrightarrow> x \<le> y \<Longrightarrow> \<lfloor>log 2 x\<rfloor> \<le> \<lfloor>log 2 y\<rfloor>"
  by (intro floor_mono) simp


lemma binade_mono: "0 < x \<Longrightarrow> x \<le> y \<Longrightarrow> binade x \<le> binade y"
  unfolding binade_def using floor_log2_mono [of x y] by simp

lemma quantum_pos: "0 < (2::real) powi k"
  by simp

lemma two_powi_split: "(2::real) powi (e + 1) = 2 ^ 53 * 2 powi (e - 52)"
proof -
  have "(2::real) powi (e + 1) = 2 powi 53 * 2 powi (e - 52)"
    using power_int_add [of "2::real" 53 "e - 52"] by (simp add: add.commute)
  then show ?thesis by simp
qed

lemma two_powi_split': "(2::real) powi e = 2 ^ 52 * 2 powi (e - 52)"
proof -
  have "(2::real) powi e = 2 powi 52 * 2 powi (e - 52)"
    using power_int_add [of "2::real" 52 "e - 52"] by simp
  then show ?thesis by simp
qed

lemma nearest_upper:
  assumes "0 < x"
  shows "nearest x \<le> 2 powi (binade x + 1)"
proof -
  let ?q = "(2::real) powi (binade x - 52)"
  have "\<lfloor>log 2 x\<rfloor> + 1 \<le> binade x + 1" using assms by (simp add: binade_def)
  then have "(2::real) powi (\<lfloor>log 2 x\<rfloor> + 1) \<le> 2 powi (binade x + 1)"
    by (intro power_int_increasing) simp_all
  then have "x \<le> 2 ^ 53 * ?q"
    using floor_log2_bounds(2) [OF assms] by (simp only: two_powi_split)
  then have "x / ?q \<le> of_int (2 ^ 53)"
    by (simp add: pos_divide_le_eq)
  then have "rne (x / ?q) \<le> 2 ^ 53" by (rule rne_le_int)
  then have "of_int (rne (x / ?q)) \<le> (2 ^ 53 :: real)"
    by (metis of_int_le_iff of_int_numeral of_int_power)
  then have "of_int (rne (x / ?q)) * ?q \<le> 2 ^ 53 * ?q"
    by (intro mult_right_mono) simp_all
  then show ?thesis unfolding nearest_def Let_def by (simp only: two_powi_split)
qed

lemma nearest_lower:
  assumes "0 < x" and "- 1022 \<le> \<lfloor>log 2 x\<rfloor>"
  shows "2 powi (binade x) \<le> nearest x"
proof -
  let ?q = "(2::real) powi (binade x - 52)"
  have b: "binade x = \<lfloor>log 2 x\<rfloor>" using assms by (simp add: binade_def)
  have "2 ^ 52 * ?q \<le> x"
    using floor_log2_bounds(1) [OF assms(1)] unfolding b [symmetric]
    by (simp only: two_powi_split' [symmetric])
  then have "of_int (2 ^ 52) \<le> x / ?q"
    by (simp add: pos_le_divide_eq)
  then have "2 ^ 52 \<le> rne (x / ?q)" by (rule rne_ge_int)
  then have "(2 ^ 52 :: real) \<le> of_int (rne (x / ?q))"
    by (metis of_int_le_iff of_int_numeral of_int_power)
  then have "2 ^ 52 * ?q \<le> of_int (rne (x / ?q)) * ?q"
    by (intro mult_right_mono) simp_all
  then show ?thesis unfolding nearest_def Let_def by (simp only: two_powi_split' [symmetric])
qed

lemma nearest_nonneg:
  assumes "0 \<le> x"
  shows "0 \<le> nearest x"
proof -
  have "0 \<le> x / 2 powi (binade x - 52)" using assms by simp
  then have "0 \<le> rne (x / 2 powi (binade x - 52))" by (rule rne_nonneg)
  then show ?thesis unfolding nearest_def Let_def by simp
qed

lemma nearest_mono:
  assumes "0 < x" and "x \<le> y"
  shows "nearest x \<le> nearest y"
proof (cases "binade x = binade y")
  case True
  let ?q = "(2::real) powi (binade y - 52)"
  have "x / ?q \<le> y / ?q" using assms by (simp add: divide_right_mono)
  then have "rne (x / ?q) \<le> rne (y / ?q)" by (rule rne_mono)
  then have "of_int (rne (x / ?q)) * ?q \<le> of_int (rne (y / ?q)) * ?q"
    by (intro mult_right_mono) simp_all
  then show ?thesis unfolding nearest_def Let_def True .
next
  case False
  have ypos: "0 < y" using assms by simp
  have lt: "binade x + 1 \<le> binade y" using binade_mono [OF assms] False by simp
  have "- 1022 \<le> binade x" by (simp add: binade_def)
  then have "- 1022 < binade y" using lt by simp
  moreover have "binade y = max \<lfloor>log 2 y\<rfloor> (- 1022)" using ypos by (simp add: binade_def)
  ultimately have fl: "- 1022 \<le> \<lfloor>log 2 y\<rfloor>" unfolding max_def by presburger
  have "nearest x \<le> 2 powi (binade x + 1)" by (rule nearest_upper [OF assms(1)])
  also have "\<dots> \<le> 2 powi (binade y)" using lt by (intro power_int_increasing) simp_all
  also have "\<dots> \<le> nearest y" by (rule nearest_lower [OF ypos fl])
  finally show ?thesis .
qed

lemma round_f64_nonneg:
  assumes "0 \<le> x"
  shows "round_f64 x = PosInf \<or> (\<exists>a\<ge>0. round_f64 x = Finite a)"
  using nearest_nonneg [OF assms] by (auto simp add: round_f64_def Let_def)

lemma round_f64_mono:
  assumes "0 \<le> x" and "x \<le> y"
  shows "f64_le (round_f64 x) (round_f64 y)"
proof (cases "x = 0")
  case True
  then show ?thesis using round_f64_nonneg [of y] assms by (auto simp add: round_f64_def)
next
  case False
  then have pos: "0 < x" "0 < y" using assms by simp_all
  have "nearest x \<le> nearest y" using pos(1) assms(2) by (rule nearest_mono)
  moreover have "0 \<le> nearest x" "0 \<le> nearest y"
    using nearest_nonneg [of x] nearest_nonneg [of y] pos by simp_all
  ultimately show ?thesis using pos by (auto simp add: round_f64_def Let_def)
qed


lemma binade_eqI:
  assumes "2 powi E \<le> x" and "x < 2 powi (E + 1)" and "- 1022 \<le> E"
  shows "binade x = E"
proof -
  have pos: "0 < x" using assms(1) zero_less_power_int [of "2::real" E] by linarith
  have "\<lfloor>log 2 x\<rfloor> = E" using assms(1,2) by (rule floor_log2_eqI)
  then show ?thesis using pos assms(3) by (simp add: binade_def)
qed

lemma binade_subnormal:
  assumes "0 < x" and "x < 2 powi (- 1022)"
  shows "binade x = - 1022"
proof -
  have "\<not> - 1022 \<le> \<lfloor>log 2 x\<rfloor>"
  proof
    assume "- 1022 \<le> \<lfloor>log 2 x\<rfloor>"
    then have "(2::real) powi (- 1022) \<le> 2 powi \<lfloor>log 2 x\<rfloor>"
      by (intro power_int_increasing) simp_all
    then show False using floor_log2_bounds(1) [OF assms(1)] assms(2) by linarith
  qed
  then show ?thesis using assms(1) by (simp add: binade_def)
qed

lemma round_f64_value:
  assumes "binade x = E" and "\<bar>x / 2 powi (E - 52) - real_of_int k\<bar> < 1/2"
    and "x \<noteq> 0" and "\<bar>real_of_int k * 2 powi (E - 52)\<bar> < 2 ^ 1024"
  shows "round_f64 x = Finite (of_int k * 2 powi (E - 52))"
proof -
  have "rne (x / 2 powi (E - 52)) = k" using assms(2) by (rule rne_nearest)
  then have "nearest x = of_int k * 2 powi (E - 52)"
    by (simp add: nearest_def Let_def assms(1))
  then show ?thesis using assms(3,4) by (simp add: round_f64_def Let_def abs_if split: if_splits)
qed

lemma round_f64_normal:
  assumes "2 powi E \<le> x" and "x < 2 powi (E + 1)" and "- 1022 \<le> E"
    and "\<bar>x / 2 powi (E - 52) - real_of_int k\<bar> < 1/2"
    and "\<bar>real_of_int k * 2 powi (E - 52)\<bar> < 2 ^ 1024"
  shows "round_f64 x = Finite (of_int k * 2 powi (E - 52))"
proof -
  have "0 < x" using assms(1) zero_less_power_int [of "2::real" E] by linarith
  then have "x \<noteq> 0" by simp
  with binade_eqI [OF assms(1,2,3)] assms(4,5) show ?thesis by (intro round_f64_value)
qed

lemma round_f64_one: "round_f64 1 = Finite 1"
  using round_f64_normal [of 0 1 "2 ^ 52"] by simp

lemma round_f64_least: "round_f64 (2 powi (- 1074)) = Finite (2 powi (- 1074))"
proof -
  have "binade (2 powi (- 1074)) = - 1022"
    by (rule binade_subnormal) simp_all
  then show ?thesis
    using round_f64_value [of "2 powi (- 1074)" "- 1022" 1] by simp
qed

lemma round_f64_greatest: "round_f64 (2 ^ 1024 - 2 ^ 971 + 1) = Finite (2 ^ 1024 - 2 ^ 971)"
  using round_f64_normal [of 1023 "2 ^ 1024 - 2 ^ 971 + 1" "2 ^ 53 - 1"] by simp


lemma nearest_multiple: "\<exists>k::int. nearest x = of_int k * 2 powi (- 1074)"
proof -
  define n where "n = nat (binade x + 1022)"
  have "- 1022 \<le> binade x" by (simp add: binade_def)
  then have e: "binade x - 52 = int n + (- 1074)" by (simp add: n_def)
  have "(2::real) powi (binade x - 52) = 2 powi (int n) * 2 powi (- 1074)"
    unfolding e by (rule power_int_add) simp
  then have "(2::real) powi (binade x - 52) = of_int (2 ^ n) * 2 powi (- 1074)"
    by simp
  then have "nearest x = of_int (rne (x / 2 powi (binade x - 52)) * 2 ^ n) * 2 powi (- 1074)"
    by (simp add: nearest_def Let_def)
  then show ?thesis by blast
qed

lemma is_f64_nearest:
  assumes "is_f64 x"
  shows "x = nearest x" and "\<bar>x\<bar> < 2 ^ 1024"
proof -
  have "x = nearest x \<and> \<bar>x\<bar> < 2 ^ 1024"
  proof (cases "x = 0")
    case True
    then show ?thesis using rne_of_int [of 0] by (simp add: nearest_def)
  next
    case False
    then show ?thesis using assms
      by (auto simp add: is_f64_def round_f64_def Let_def split: if_splits)
  qed
  then show "x = nearest x" and "\<bar>x\<bar> < 2 ^ 1024" by simp_all
qed

lemma is_f64_multiple:
  assumes "is_f64 x"
  shows "\<exists>k::int. x = of_int k * 2 powi (- 1074)"
  using nearest_multiple [of x] is_f64_nearest(1) [OF assms] by simp

lemma f64_gap:
  assumes "is_f64 g" and "is_f64 d" and "g < d"
  shows "2 powi (- 1074) \<le> d - g"
proof -
  obtain i :: int where i: "g = of_int i * 2 powi (- 1074)"
    using is_f64_multiple [OF assms(1)] by blast
  obtain j :: int where j: "d = of_int j * 2 powi (- 1074)"
    using is_f64_multiple [OF assms(2)] by blast
  have u: "0 < (2::real) powi (- 1074)" by (rule quantum_pos)
  have "real_of_int i * 2 powi (- 1074) < real_of_int j * 2 powi (- 1074)"
    using assms(3) unfolding i j .
  then have "real_of_int i < real_of_int j" using u by (simp only: mult_less_cancel_right_pos)
  then have "i + 1 \<le> j" by simp
  then have "real_of_int i + 1 \<le> real_of_int j" by linarith
  then have "(real_of_int i + 1) * 2 powi (- 1074) \<le> real_of_int j * 2 powi (- 1074)"
    using u by (simp only: mult_le_cancel_right_pos)
  then show ?thesis unfolding i j by (simp add: algebra_simps)
qed

lemma is_f64_le_greatest:
  assumes "is_f64 d"
  shows "d \<le> 2 ^ 1024 - 2 ^ 971"
proof (rule ccontr)
  assume "\<not> d \<le> 2 ^ 1024 - 2 ^ 971"
  then have gt: "2 ^ 1024 - 2 ^ 971 < d" by simp
  have lt: "d < 2 ^ 1024" using is_f64_nearest(2) [OF assms] by simp
  have b: "binade d = 1023"
    using gt lt by (intro binade_eqI) simp_all
  have "d = of_int (rne (d / 2 powi (binade d - 52))) * 2 powi (binade d - 52)"
    using is_f64_nearest(1) [OF assms] by (simp add: nearest_def Let_def)
  then obtain k :: int where k: "d = of_int k * 2 ^ 971" unfolding b by simp
  have p: "0 < (2::real) ^ 971" by simp
  have "(2 ^ 53 - 1) * (2 ^ 971 :: real) < real_of_int k * 2 ^ 971" using gt unfolding k by simp
  then have "2 ^ 53 - 1 < real_of_int k" using p by (simp only: mult_less_cancel_right_pos)
  then have "real_of_int (2 ^ 53 - 1) < real_of_int k" by simp
  then have lo: "2 ^ 53 - 1 < k" by (simp only: of_int_less_iff)
  have "real_of_int k * 2 ^ 971 < 2 ^ 53 * (2 ^ 971 :: real)" using lt unfolding k by simp
  then have "real_of_int k < 2 ^ 53" using p by (simp only: mult_less_cancel_right_pos)
  then have "real_of_int k < real_of_int (2 ^ 53)" by simp
  then have "k < 2 ^ 53" by (simp only: of_int_less_iff)
  then show False using lo by simp
qed

lemma f64_sub_finite:
  assumes "is_f64 g" and "is_f64 d" and "g < d" and "- 1 < g"
  shows "\<exists>m. f64_sub (Finite d) (Finite g) = Finite m \<and> 0 < m"
proof -
  have lo: "2 powi (- 1074) \<le> d - g" using assms(1,2,3) by (rule f64_gap)
  have hi: "d - g \<le> 2 ^ 1024 - 2 ^ 971 + 1"
    using is_f64_le_greatest [OF assms(2)] assms(4) by linarith
  have u: "0 < (2::real) powi (- 1074)" by (rule quantum_pos)
  have "f64_le (round_f64 (2 powi (- 1074))) (round_f64 (d - g))"
    using lo by (intro round_f64_mono) simp_all
  moreover have "f64_le (round_f64 (d - g)) (round_f64 (2 ^ 1024 - 2 ^ 971 + 1))"
    using lo u hi by (intro round_f64_mono) linarith+
  ultimately have "\<exists>m. round_f64 (d - g) = Finite m \<and> 2 powi (- 1074) \<le> m"
    unfolding round_f64_least round_f64_greatest
    by (cases "round_f64 (d - g)") simp_all
  then show ?thesis using u by (auto simp add: f64_sub_def intro: less_le_trans)
qed

lemma f64_sub_mono:
  assumes "g \<le> g'" and "g' < d'" and "d' \<le> d"
  shows "f64_le (f64_sub (Finite d') (Finite g')) (f64_sub (Finite d) (Finite g))"
  using assms by (simp add: f64_sub_def round_f64_mono)

lemma round_f64_zero: "round_f64 0 = Finite 0"
  by (simp add: round_f64_def)

lemma round_f64_sign:
  assumes "0 \<le> y"
  shows "f64_le (Finite 0) (round_f64 y)"
  using round_f64_mono [of 0 y] assms by (simp only: round_f64_zero)

lemma f64_add_one:
  assumes "- 1 < g" and "g \<le> g'"
  shows "f64_le (Finite 0) (f64_add (Finite 1) (Finite g))"
    and "f64_le (f64_add (Finite 1) (Finite g)) (f64_add (Finite 1) (Finite g'))"
proof -
  have "f64_le (Finite 0) (round_f64 (1 + g))" using assms by (intro round_f64_sign) simp
  then show "f64_le (Finite 0) (f64_add (Finite 1) (Finite g))" by simp
  have "f64_le (round_f64 (1 + g)) (round_f64 (1 + g'))"
    using assms by (intro round_f64_mono) simp_all
  then show "f64_le (f64_add (Finite 1) (Finite g)) (f64_add (Finite 1) (Finite g'))" by simp
qed

lemma f64_mul_mono:
  assumes "0 < c" and "c \<le> c'" and "f64_le (Finite 0) X" and "f64_le X X'"
  shows "f64_le (Finite 0) (f64_mul (Finite c) X)"
    and "f64_le (f64_mul (Finite c) X) (f64_mul (Finite c') X')"
proof -
  have z: "f64_le (Finite 0) (round_f64 y)" if "0 \<le> y" for y
    using that by (rule round_f64_sign)
  show "f64_le (Finite 0) (f64_mul (Finite c) X)"
    using assms(1,3) by (cases X) (simp_all add: z f64_scale_inf_def)
  show "f64_le (f64_mul (Finite c) X) (f64_mul (Finite c') X')"
  proof (cases X)
    case (Finite a)
    show ?thesis
    proof (cases X')
      case (Finite a')
      have "c * a \<le> c' * a'" using assms \<open>X = Finite a\<close> Finite by (intro mult_mono) simp_all
      then show ?thesis using assms \<open>X = Finite a\<close> Finite by (simp add: round_f64_mono)
    next
      case PosInf
      have "0 \<le> c * a" using assms \<open>X = Finite a\<close> by simp
      then have "f64_le (round_f64 (c * a)) PosInf"
        using z [of "c * a"] by (cases "round_f64 (c * a)") simp_all
      then show ?thesis using assms \<open>X = Finite a\<close> PosInf by (simp add: f64_scale_inf_def)
    qed (use assms \<open>X = Finite a\<close> in simp_all)
  next
    case PosInf
    then show ?thesis using assms by (cases X') (simp_all add: f64_scale_inf_def)
  qed (use assms in simp_all)
qed

lemma f64_div_mono:
  assumes "f64_le (Finite 0) N" and "f64_le N N'" and "0 < m'" and "m' \<le> m"
  shows "f64_le (f64_div N (Finite m)) (f64_div N' (Finite m'))"
proof (cases N)
  case (Finite n)
  show ?thesis
  proof (cases N')
    case (Finite n')
    have "n / m \<le> n' / m'" using assms \<open>N = Finite n\<close> Finite by (intro frac_le) simp_all
    moreover have "0 \<le> n / m" using assms \<open>N = Finite n\<close> by simp
    ultimately show ?thesis using \<open>N = Finite n\<close> Finite by (simp add: round_f64_mono)
  next
    case PosInf
    have "0 \<le> n / m" using assms \<open>N = Finite n\<close> by simp
    then have "f64_le (Finite 0) (round_f64 (n / m))" by (rule round_f64_sign)
    then have "f64_le (round_f64 (n / m)) PosInf"
      by (cases "round_f64 (n / m)") simp_all
    then show ?thesis using assms \<open>N = Finite n\<close> PosInf by simp
  qed (use assms \<open>N = Finite n\<close> in simp_all)
next
  case PosInf
  then show ?thesis using assms by (cases N') simp_all
qed (use assms in simp_all)

lemma f64_div_sign:
  assumes "f64_le (Finite 0) N" and "0 < m"
  shows "f64_le (Finite 0) (f64_div N (Finite m))"
proof (cases N)
  case (Finite n)
  then have "0 \<le> n / m" using assms by simp
  then show ?thesis using Finite by (simp add: round_f64_sign)
qed (use assms in simp_all)

lemma is_f64_zero: "is_f64 0"
  by (simp add: is_f64_def round_f64_zero)

lemma is_f64_one: "is_f64 1"
  by (simp add: is_f64_def round_f64_one)

lemma is_f64_two: "is_f64 2"
  using round_f64_normal [of 1 2 "2 ^ 52"] by (simp add: is_f64_def)

lemma is_f64_half: "is_f64 (1 / 2)"
  using round_f64_normal [of "- 1" "1 / 2" "2 ^ 52"] by (simp add: is_f64_def)

lemma gordon_f64_growth_collision:
  "is_f64 (1 / 2 ^ 60) \<and> is_f64 (1 / 2 ^ 59) \<and>
   gordon_growth_model_f64 (Finite 1) (Finite (1 / 2 ^ 60)) (Finite 1) = Inr (Finite 1) \<and>
   gordon_growth_model_f64 (Finite 1) (Finite (1 / 2 ^ 59)) (Finite 1) = Inr (Finite 1)"
proof -
  have i1: "is_f64 (1 / 2 ^ 60)"
    using round_f64_normal [of "- 60" "1 / 2 ^ 60" "2 ^ 52"] by (simp add: is_f64_def)
  have i2: "is_f64 (1 / 2 ^ 59)"
    using round_f64_normal [of "- 59" "1 / 2 ^ 59" "2 ^ 52"] by (simp add: is_f64_def)
  have a1: "round_f64 (1 + 1 / 2 ^ 60) = Finite 1"
    using round_f64_normal [of 0 "1 + 1 / 2 ^ 60" "2 ^ 52"] by simp
  have a2: "round_f64 (1 + 1 / 2 ^ 59) = Finite 1"
    using round_f64_normal [of 0 "1 + 1 / 2 ^ 59" "2 ^ 52"] by simp
  have s1: "round_f64 (1 + - (1 / 2 ^ 60)) = Finite 1"
    using round_f64_normal [of "- 1" "1 + - (1 / 2 ^ 60)" "2 ^ 53"] by simp
  have s2: "round_f64 (1 + - (1 / 2 ^ 59)) = Finite 1"
    using round_f64_normal [of "- 1" "1 + - (1 / 2 ^ 59)" "2 ^ 53"] by simp
  have q: "f64_truediv (f64_mul (Finite 1) (Finite 1)) (Finite 1) = Inr (Finite 1)"
    by (simp add: f64_truediv_def round_f64_one)
  have "gordon_growth_model_f64 (Finite 1) (Finite (1 / 2 ^ 60)) (Finite 1) = Inr (Finite 1)"
    by (simp only: gordon_growth_model_f64_def f64_sub_def f64_neg.simps f64_add.simps a1 s1 q)
  moreover have "gordon_growth_model_f64 (Finite 1) (Finite (1 / 2 ^ 59)) (Finite 1) = Inr (Finite 1)"
    by (simp only: gordon_growth_model_f64_def f64_sub_def f64_neg.simps f64_add.simps a2 s2 q)
  ultimately show ?thesis using i1 i2 by simp
qed

lemma gordon_f64_dividend_collision:
  "is_f64 (3 + 1 / 2 ^ 51) \<and> is_f64 (3 + 1 / 2 ^ 50) \<and> is_f64 (3 / 2) \<and>
   gordon_growth_model_f64 (Finite (3 + 1 / 2 ^ 51)) (Finite 0) (Finite (3 / 2)) =
     Inr (Finite (2 + 1 / 2 ^ 51)) \<and>
   gordon_growth_model_f64 (Finite (3 + 1 / 2 ^ 50)) (Finite 0) (Finite (3 / 2)) =
     Inr (Finite (2 + 1 / 2 ^ 51))"
proof -
  have c1: "round_f64 (3 + 1 / 2 ^ 51) = Finite (3 + 1 / 2 ^ 51)"
    using round_f64_normal [of 1 "3 + 1 / 2 ^ 51" "3 * 2 ^ 51 + 1"] by simp
  have c2: "round_f64 (3 + 1 / 2 ^ 50) = Finite (3 + 1 / 2 ^ 50)"
    using round_f64_normal [of 1 "3 + 1 / 2 ^ 50" "3 * 2 ^ 51 + 2"] by simp
  have d: "round_f64 (3 / 2) = Finite (3 / 2)"
    using round_f64_normal [of 0 "3 / 2" "3 * 2 ^ 51"] by simp
  have a: "round_f64 (1 + 0) = Finite 1" by (simp add: round_f64_one)
  have m1: "round_f64 ((3 + 1 / 2 ^ 51) * 1) = Finite (3 + 1 / 2 ^ 51)" using c1 by simp
  have m2: "round_f64 ((3 + 1 / 2 ^ 50) * 1) = Finite (3 + 1 / 2 ^ 50)" using c2 by simp
  have s: "round_f64 (3 / 2 + - 0) = Finite (3 / 2)" using d by simp
  have q1: "round_f64 ((3 + 1 / 2 ^ 51) / (3 / 2)) = Finite (2 + 1 / 2 ^ 51)"
    using round_f64_normal [of 1 "(3 + 1 / 2 ^ 51) / (3 / 2)" "2 ^ 52 + 1"] by simp
  have q2: "round_f64 ((3 + 1 / 2 ^ 50) / (3 / 2)) = Finite (2 + 1 / 2 ^ 51)"
    using round_f64_normal [of 1 "(3 + 1 / 2 ^ 50) / (3 / 2)" "2 ^ 52 + 1"] by simp
  have nz: "Finite (3 / 2) \<noteq> Finite 0" by simp
  have "gordon_growth_model_f64 (Finite (3 + 1 / 2 ^ 51)) (Finite 0) (Finite (3 / 2)) =
      Inr (Finite (2 + 1 / 2 ^ 51))"
    by (simp only: gordon_growth_model_f64_def f64_sub_def f64_neg.simps f64_add.simps
        f64_mul.simps f64_truediv_def f64_div.simps a s m1 q1 nz if_False)
  moreover have "gordon_growth_model_f64 (Finite (3 + 1 / 2 ^ 50)) (Finite 0) (Finite (3 / 2)) =
      Inr (Finite (2 + 1 / 2 ^ 51))"
    by (simp only: gordon_growth_model_f64_def f64_sub_def f64_neg.simps f64_add.simps
        f64_mul.simps f64_truediv_def f64_div.simps a s m2 q2 nz if_False)
  ultimately show ?thesis using c1 c2 d by (simp only: is_f64_def)
qed

lemma gordon_f64_discount_collision:
  "is_f64 (2 - 1 / 2 ^ 51) \<and> is_f64 (2 - 1 / 2 ^ 52) \<and>
   gordon_growth_model_f64 (Finite 1) (Finite 0) (Finite (2 - 1 / 2 ^ 51)) =
     Inr (Finite (1 / 2 + 1 / 2 ^ 53)) \<and>
   gordon_growth_model_f64 (Finite 1) (Finite 0) (Finite (2 - 1 / 2 ^ 52)) =
     Inr (Finite (1 / 2 + 1 / 2 ^ 53))"
proof -
  have d1: "round_f64 (2 - 1 / 2 ^ 51) = Finite (2 - 1 / 2 ^ 51)"
    using round_f64_normal [of 0 "2 - 1 / 2 ^ 51" "2 ^ 53 - 2"] by simp
  have d2: "round_f64 (2 - 1 / 2 ^ 52) = Finite (2 - 1 / 2 ^ 52)"
    using round_f64_normal [of 0 "2 - 1 / 2 ^ 52" "2 ^ 53 - 1"] by simp
  have a: "round_f64 (1 + 0) = Finite 1" by (simp add: round_f64_one)
  have m: "round_f64 (1 * 1) = Finite 1" by (simp add: round_f64_one)
  have s1: "round_f64 (2 - 1 / 2 ^ 51 + - 0) = Finite (2 - 1 / 2 ^ 51)" using d1 by simp
  have s2: "round_f64 (2 - 1 / 2 ^ 52 + - 0) = Finite (2 - 1 / 2 ^ 52)" using d2 by simp
  have q1: "round_f64 (1 / (2 - 1 / 2 ^ 51)) = Finite (1 / 2 + 1 / 2 ^ 53)"
    using round_f64_normal [of "- 1" "1 / (2 - 1 / 2 ^ 51)" "2 ^ 52 + 1"] by simp
  have q2: "round_f64 (1 / (2 - 1 / 2 ^ 52)) = Finite (1 / 2 + 1 / 2 ^ 53)"
    using round_f64_normal [of "- 1" "1 / (2 - 1 / 2 ^ 52)" "2 ^ 52 + 1"] by simp
  have nz1: "Finite (2 - 1 / 2 ^ 51) \<noteq> Finite 0" by simp
  have nz2: "Finite (2 - 1 / 2 ^ 52) \<noteq> Finite 0" by simp
  have "gordon_growth_model_f64 (Finite 1) (Finite 0) (Finite (2 - 1 / 2 ^ 51)) =
      Inr (Finite (1 / 2 + 1 / 2 ^ 53))"
    by (simp only: gordon_growth_model_f64_def f64_sub_def f64_neg.simps f64_add.simps
        f64_mul.simps f64_truediv_def f64_div.simps a s1 m q1 nz1 if_False)
  moreover have "gordon_growth_model_f64 (Finite 1) (Finite 0) (Finite (2 - 1 / 2 ^ 52)) =
      Inr (Finite (1 / 2 + 1 / 2 ^ 53))"
    by (simp only: gordon_growth_model_f64_def f64_sub_def f64_neg.simps f64_add.simps
        f64_mul.simps f64_truediv_def f64_div.simps a s2 m q2 nz2 if_False)
  ultimately show ?thesis using d1 d2 by (simp only: is_f64_def)
qed

text \<open>
  Claim C10, as amended. On doubles \<^verbatim>\<open>gordon_growth_model\<close> is monotone, not strictly
  monotone. For \<open>current_div > 0\<close> and doubles \<open>discount > const_growth > -1\<close>, a call
  with a \<open>current_div\<close> that is no smaller, a \<open>const_growth\<close> that is no smaller (and
  still below its discount rate) and a \<open>discount\<close> that is no larger returns a value
  that is no smaller; both calls return, with a non-negative double or \<open>inf\<close>. Taking
  two of the three parameters equal gives the statement for each parameter alone.
  The inequality cannot be made strict: in each of the three parameters there are
  two adjacent doubles with the same result (the counterexample).
\<close>

theorem gordon_growth_model_f64_monotone:
  assumes "is_f64 g" and "is_f64 g'" and "is_f64 d" and "is_f64 d'"
    and "0 < c" and "c \<le> c'" and "- 1 < g" and "g \<le> g'" and "g' < d'" and "d' \<le> d"
  shows "\<exists>v v'. gordon_growth_model_f64 (Finite c) (Finite g) (Finite d) = Inr v \<and>
                 gordon_growth_model_f64 (Finite c') (Finite g') (Finite d') = Inr v' \<and>
                 f64_le (Finite 0) v \<and> f64_le v v'"
proof -
  obtain m where m: "f64_sub (Finite d) (Finite g) = Finite m" "0 < m"
    using f64_sub_finite [of g d] assms by force
  obtain m' where m': "f64_sub (Finite d') (Finite g') = Finite m'" "0 < m'"
    using f64_sub_finite [of g' d'] assms by force
  have le: "m' \<le> m" using f64_sub_mono [of g g' d' d] assms unfolding m m' by simp
  let ?N = "f64_mul (Finite c) (f64_add (Finite 1) (Finite g))"
  let ?N' = "f64_mul (Finite c') (f64_add (Finite 1) (Finite g'))"
  have a: "f64_le (Finite 0) (f64_add (Finite 1) (Finite g))"
    and a': "f64_le (f64_add (Finite 1) (Finite g)) (f64_add (Finite 1) (Finite g'))"
    using f64_add_one [of g g'] assms by simp_all
  have n: "f64_le (Finite 0) ?N" and n': "f64_le ?N ?N'"
    using f64_mul_mono [OF assms(5,6) a a'] by simp_all
  have "f64_le (f64_div ?N (Finite m)) (f64_div ?N' (Finite m'))"
    using n n' m'(2) le by (rule f64_div_mono)
  moreover have "f64_le (Finite 0) (f64_div ?N (Finite m))"
    using n m(2) by (rule f64_div_sign)
  ultimately show ?thesis
    using m m' by (simp add: gordon_growth_model_f64_def f64_truediv_def)
qed

theorem gordon_growth_model_f64_monotone_witness:
  "is_f64 0 \<and> is_f64 (1 / 2) \<and> is_f64 2 \<and> is_f64 1 \<and>
   (\<exists>v v'. gordon_growth_model_f64 (Finite 1) (Finite 0) (Finite 2) = Inr v \<and>
            gordon_growth_model_f64 (Finite 2) (Finite (1 / 2)) (Finite 1) = Inr v' \<and>
            f64_le (Finite 0) v \<and> f64_le v v')"
  using gordon_growth_model_f64_monotone [where g = 0 and g' = "1 / 2" and d = 2 and d' = 1
      and c = 1 and c' = 2]
  by (simp add: is_f64_zero is_f64_half is_f64_two is_f64_one)

theorem gordon_growth_model_f64_monotone_counterexample:
  "(3 + 1 / 2 ^ 51 < (3 + 1 / 2 ^ 50 :: real) \<and>
    gordon_growth_model_f64 (Finite (3 + 1 / 2 ^ 51)) (Finite 0) (Finite (3 / 2)) =
      Inr (Finite (2 + 1 / 2 ^ 51)) \<and>
    gordon_growth_model_f64 (Finite (3 + 1 / 2 ^ 50)) (Finite 0) (Finite (3 / 2)) =
      Inr (Finite (2 + 1 / 2 ^ 51))) \<and>
   (1 / 2 ^ 60 < (1 / 2 ^ 59 :: real) \<and>
    gordon_growth_model_f64 (Finite 1) (Finite (1 / 2 ^ 60)) (Finite 1) = Inr (Finite 1) \<and>
    gordon_growth_model_f64 (Finite 1) (Finite (1 / 2 ^ 59)) (Finite 1) = Inr (Finite 1)) \<and>
   (2 - 1 / 2 ^ 51 < (2 - 1 / 2 ^ 52 :: real) \<and>
    gordon_growth_model_f64 (Finite 1) (Finite 0) (Finite (2 - 1 / 2 ^ 51)) =
      Inr (Finite (1 / 2 + 1 / 2 ^ 53)) \<and>
    gordon_growth_model_f64 (Finite 1) (Finite 0) (Finite (2 - 1 / 2 ^ 52)) =
      Inr (Finite (1 / 2 + 1 / 2 ^ 53))) \<and>
   is_f64 (3 + 1 / 2 ^ 51) \<and> is_f64 (3 + 1 / 2 ^ 50) \<and> is_f64 (3 / 2) \<and> is_f64 0 \<and>
   is_f64 1 \<and> is_f64 (1 / 2 ^ 60) \<and> is_f64 (1 / 2 ^ 59) \<and>
   is_f64 (2 - 1 / 2 ^ 51) \<and> is_f64 (2 - 1 / 2 ^ 52)"
proof -
  have "3 + 1 / 2 ^ 51 < (3 + 1 / 2 ^ 50 :: real)" by simp
  moreover have "1 / 2 ^ 60 < (1 / 2 ^ 59 :: real)" by simp
  moreover have "2 - 1 / 2 ^ 51 < (2 - 1 / 2 ^ 52 :: real)" by simp
  ultimately show ?thesis
    using gordon_f64_dividend_collision gordon_f64_growth_collision
      gordon_f64_discount_collision is_f64_zero is_f64_one
    by blast
qed

subsection \<open>Sums of numpy values\<close>

lemma np_sum_map_Fin: "np_sum (map Fin xs) = Fin (sum_list xs)"
  by (induction xs) (simp_all add: np_sum_def)

lemma map2_np_truediv_Fin:
  "\<forall>y\<in>set ys. y \<noteq> 0 \<Longrightarrow> map2 np_truediv (map Fin xs) ys = map Fin (map2 (/) xs ys)"
proof (induction xs arbitrary: ys)
  case Nil then show ?case by simp
next
  case (Cons x xs) then show ?case by (cases ys) simp_all
qed

lemma np_getitem_last_upt:
  assumes "0 < n"
  shows "np_getitem (map f [Suc 0..<Suc n]) (int (length (map f [Suc 0..<Suc n])) - 1) = Inr (f n)"
proof -
  have idx: "nat (int n - 1) = n - 1" by arith
  have "[Suc 0..<Suc n] ! (n - 1) = n" using assms by (simp add: nth_upt del: upt_Suc)
  then have "map f [Suc 0..<Suc n] ! (n - 1) = f n" using assms by (simp del: upt_Suc)
  then show ?thesis using assms idx by (simp add: np_getitem_def Let_def del: upt_Suc)
qed

lemma upt_shift: "[Suc a..<Suc a + n] = map (\<lambda>k. a + k) [Suc 0..<Suc n]"
  by (simp add: list_eq_iff_nth_eq del: upt_Suc)

lemma upt_three_parts:
  "[Suc 0..<Suc (n1 + n2 + 1)] = [Suc 0..<Suc n1] @ map (\<lambda>k. n1 + k) [Suc 0..<Suc n2] @ [n1 + n2 + 1]"
proof -
  have "[Suc 0..<Suc (n1 + n2 + 1)] = [Suc 0..<Suc (n1 + n2)] @ [n1 + n2 + 1]" by simp
  moreover have "[Suc 0..<Suc (n1 + n2)] = [Suc 0..<Suc n1] @ [Suc n1..<Suc n1 + n2]"
    using upt_add_eq_append [of "Suc 0" "Suc n1" n2] by simp
  ultimately show ?thesis using upt_shift [of n1 n2] by simp
qed

lemma zip_map_same: "map2 h (map f xs) (map g xs) = map (\<lambda>x. h (f x) (g x)) xs"
  by (induction xs) simp_all

subsection \<open>The dividend discount model as a sum\<close>

lemma discounted_stream:
  fixes d :: real
  assumes "1 + d \<noteq> 0"
  shows "np_sum (map2 np_truediv
           (map Fin (map f1 [Suc 0..<Suc n1]) @ map Fin (map f2 [Suc 0..<Suc n2]) @ [Fin t])
           (map (\<lambda>k. (1 + d) ^ k) [Suc 0..<Suc (n1 + n2 + 1)])) =
         Fin (sum_list (map (\<lambda>k. f1 k / (1 + d) ^ k) [Suc 0..<Suc n1]) +
              sum_list (map (\<lambda>k. f2 k / (1 + d) ^ (n1 + k)) [Suc 0..<Suc n2]) +
              t / (1 + d) ^ (n1 + n2 + 1))"
proof -
  let ?pw = "\<lambda>k. (1 + d) ^ k"
  have nz: "\<forall>y\<in>set (map ?pw [Suc 0..<Suc (n1 + n2 + 1)]). y \<noteq> 0"
    using assms by simp
  have cat: "map Fin (map f1 [Suc 0..<Suc n1]) @ map Fin (map f2 [Suc 0..<Suc n2]) @ [Fin t] =
      map Fin (map f1 [Suc 0..<Suc n1] @ map f2 [Suc 0..<Suc n2] @ [t])"
    by simp
  have parts: "map ?pw [Suc 0..<Suc (n1 + n2 + 1)] =
      map ?pw [Suc 0..<Suc n1] @ map (\<lambda>k. ?pw (n1 + k)) [Suc 0..<Suc n2] @ [?pw (n1 + n2 + 1)]"
    by (simp only: upt_three_parts map_append map_map comp_def list.map)
  have "map2 (/) (map f1 [Suc 0..<Suc n1] @ map f2 [Suc 0..<Suc n2] @ [t])
          (map ?pw [Suc 0..<Suc (n1 + n2 + 1)]) =
        map (\<lambda>k. f1 k / ?pw k) [Suc 0..<Suc n1] @
        map (\<lambda>k. f2 k / ?pw (n1 + k)) [Suc 0..<Suc n2] @ [t / ?pw (n1 + n2 + 1)]"
    by (simp only: parts) (simp add: zip_map_same del: upt_Suc)
  then show ?thesis
    by (simp only: cat map2_np_truediv_Fin [OF nz] np_sum_map_Fin) (simp del: upt_Suc)
qed

lemma arange_int [simp]: "arange (Suc 0) (int n + 1) = [Suc 0..<Suc n]"
  by (simp add: arange_def nat_add_distrib del: upt_Suc)

lemma div_discount_model_nat:
  assumes "0 < n1" and "0 < n2" and "1 + d \<noteq> 0" and "d \<noteq> g"
  shows "div_discount_model c d g1 (int n1) g2 (int n2) g = Inr (Fin (
     sum_list (map (\<lambda>k. c * (1 + g1) ^ k / (1 + d) ^ k) [Suc 0..<Suc n1])
   + sum_list (map (\<lambda>k. c * (1 + g1) ^ n1 * (1 + g2) ^ k / (1 + d) ^ (n1 + k))
       [Suc 0..<Suc n2])
   + c * (1 + g1) ^ n1 * (1 + g2) ^ n2 * (1 + g) / (d - g) / (1 + d) ^ (n1 + n2 + 1)))"
proof -
  let ?f1 = "\<lambda>k. c * (1 + g1) ^ k"
  let ?f2 = "\<lambda>k. c * (1 + g1) ^ n1 * (1 + g2) ^ k"
  let ?proj1 = "map ?f1 [Suc 0..<Suc n1]"
  let ?proj2 = "map ?f2 [Suc 0..<Suc n2]"
  let ?t = "c * (1 + g1) ^ n1 * (1 + g2) ^ n2 * (1 + g) / (d - g)"
  have ar: "arange 1 (int n1 + 1) = [Suc 0..<Suc n1]" "arange 1 (int n2 + 1) = [Suc 0..<Suc n2]"
    by (simp_all del: upt_Suc)
  have last1: "np_getitem ?proj1 (int (length ?proj1) - 1) = Inr (?f1 n1)"
    by (rule np_getitem_last_upt [OF assms(1)])
  have last2: "np_getitem ?proj2 (int (length ?proj2) - 1) = Inr (?f2 n2)"
    by (rule np_getitem_last_upt [OF assms(2)])
  have terminal: "np_truediv (Fin (?f2 n2 * (1 + g))) (d - g) = Fin ?t"
    using assms(4) by simp
  have tot: "arange 1 (int (length ?proj1) + int (length ?proj2) + int (length [Fin ?t]) + 1) =
      [Suc 0..<Suc (n1 + n2 + 1)]"
    by (simp add: arange_def nat_add_distrib del: upt_Suc)
  have "div_discount_model c d g1 (int n1) g2 (int n2) g =
      Inr (np_sum (map2 np_truediv (map Fin ?proj1 @ map Fin ?proj2 @ [Fin ?t])
             (map (\<lambda>k. (1 + d) ^ k) [Suc 0..<Suc (n1 + n2 + 1)])))"
    unfolding div_discount_model_def Let_def ar
    by (simp only: last1 last2 bind_res_def sum.case terminal tot)
  then show ?thesis by (simp only: discounted_stream [OF assms(3)])
qed

lemma div_discount_model_finite:
  assumes "1 \<le> p1" and "1 \<le> p2" and "1 + d \<noteq> 0" and "d \<noteq> g"
  shows "div_discount_model c d g1 p1 g2 p2 g = Inr (Fin (
     sum_list (map (\<lambda>k. c * (1 + g1) ^ k / (1 + d) ^ k) [Suc 0..<Suc (nat p1)])
   + sum_list (map (\<lambda>k. c * (1 + g1) ^ nat p1 * (1 + g2) ^ k / (1 + d) ^ (nat p1 + k))
        [Suc 0..<Suc (nat p2)])
   + c * (1 + g1) ^ nat p1 * (1 + g2) ^ nat p2 * (1 + g) / (d - g)
       / (1 + d) ^ (nat p1 + nat p2 + 1)))"
proof -
  have "0 < nat p1" "0 < nat p2" "int (nat p1) = p1" "int (nat p2) = p2"
    using assms by simp_all
  then show ?thesis
    using div_discount_model_nat [of "nat p1" "nat p2" d g c g1 g2] assms by simp
qed





lemma np_sum_NonFin_last:
  "length zs = Suc (length xs) \<Longrightarrow> np_sum (map2 np_truediv (xs @ [NonFin]) zs) = NonFin"
proof (induction xs arbitrary: zs)
  case Nil
  then show ?case by (cases zs) (simp_all add: np_sum_def)
next
  case (Cons x xs)
  then obtain z zs' where zs: "zs = z # zs'" and len: "length zs' = Suc (length xs)"
    by (cases zs) auto
  have "np_sum (map2 np_truediv (xs @ [NonFin]) zs') = NonFin"
    by (rule Cons.IH [OF len])
  then show ?case by (simp add: zs np_sum_def)
qed

lemma np_sum_NonFin_last2:
  "length zs = Suc (length xs + length ys) \<Longrightarrow>
   np_sum (map2 np_truediv (xs @ ys @ [NonFin]) zs) = NonFin"
  using np_sum_NonFin_last [of zs "xs @ ys"] by simp

lemma div_discount_model_returns:
  assumes "1 \<le> p1" and "1 \<le> p2"
  shows "\<not> isl (div_discount_model c d g1 p1 g2 p2 g)"
proof -
  have pos: "0 < nat p1" "0 < nat p2" using assms by simp_all
  have ar: "arange 1 (p1 + 1) = [Suc 0..<Suc (nat p1)]" "arange 1 (p2 + 1) = [Suc 0..<Suc (nat p2)]"
    using assms by (simp_all add: arange_def nat_add_distrib del: upt_Suc)
  show ?thesis
    unfolding div_discount_model_def Let_def ar
    by (simp only: np_getitem_last_upt [OF pos(1)] np_getitem_last_upt [OF pos(2)]
          bind_res_def sum.case sum.disc not_False_eq_True)
qed

lemma div_discount_model_nonfinite:
  assumes "1 \<le> p1" and "1 \<le> p2"
  shows "div_discount_model c d g1 p1 g2 p2 d = Inr NonFin"
proof -
  have pos: "0 < nat p1" "0 < nat p2" using assms by simp_all
  have ar: "arange 1 (p1 + 1) = [Suc 0..<Suc (nat p1)]" "arange 1 (p2 + 1) = [Suc 0..<Suc (nat p2)]"
    using assms by (simp_all add: arange_def nat_add_distrib del: upt_Suc)
  show ?thesis
    unfolding div_discount_model_def Let_def ar
    by (simp only: np_getitem_last_upt [OF pos(1)] np_getitem_last_upt [OF pos(2)]
          bind_res_def sum.case)
       (simp add: arange_def nat_add_distrib np_sum_NonFin_last2 del: upt_Suc)
qed

lemma gordon_growth_model_raises:
  "gordon_growth_model current_div const_growth const_growth = Inl ZeroDivisionError"
  by (simp add: gordon_growth_model_def py_truediv_def)

text \<open>
  Claim C1, as amended. Neither function checks \<open>discount > const_growth\<close>.
  \<open>gordon_growth_model\<close> signals an error (the division by zero) exactly when
  \<open>discount = const_growth\<close>; for \<open>discount < const_growth\<close> it returns
  \<open>current_div * (1 + const_growth) / (discount - const_growth)\<close>, computed from the negative
  denominator. \<open>div_discount_model\<close>, with both periods at least 1, signals no error for any
  \<open>discount\<close> and \<open>const_growth\<close>: at \<open>discount = const_growth\<close> it returns a non-finite
  value, and for \<open>discount < const_growth\<close> (and \<open>discount \<noteq> -1\<close>) it returns the finite
  discounted sum whose terminal term is computed from the negative denominator.
\<close>

theorem perpetuity_denominator_unchecked:
  "(isl (gordon_growth_model c g d) \<longleftrightarrow> d = g) \<and>
   (d < g \<longrightarrow> gordon_growth_model c g d = Inr (c * (1 + g) / (d - g))) \<and>
   (1 \<le> p1 \<and> 1 \<le> p2 \<longrightarrow> \<not> isl (div_discount_model c d g1 p1 g2 p2 g)) \<and>
   (1 \<le> p1 \<and> 1 \<le> p2 \<and> d = g \<longrightarrow> div_discount_model c d g1 p1 g2 p2 g = Inr NonFin) \<and>
   (1 \<le> p1 \<and> 1 \<le> p2 \<and> d < g \<and> 1 + d \<noteq> 0 \<longrightarrow>
      div_discount_model c d g1 p1 g2 p2 g = Inr (Fin (
        sum_list (map (\<lambda>k. c * (1 + g1) ^ k / (1 + d) ^ k) [1..<Suc (nat p1)])
      + sum_list (map (\<lambda>k. c * (1 + g1) ^ nat p1 * (1 + g2) ^ k / (1 + d) ^ (nat p1 + k))
          [1..<Suc (nat p2)])
      + c * (1 + g1) ^ nat p1 * (1 + g2) ^ nat p2 * (1 + g) / (d - g)
          / (1 + d) ^ (nat p1 + nat p2 + 1))))"
proof (intro conjI impI)
  show "isl (gordon_growth_model c g d) \<longleftrightarrow> d = g"
    by (cases "d = g") (simp_all add: gordon_growth_model_raises gordon_growth_model_value)
next
  assume "d < g"
  then show "gordon_growth_model c g d = Inr (c * (1 + g) / (d - g))"
    by (simp add: gordon_growth_model_value)
next
  assume "1 \<le> p1 \<and> 1 \<le> p2"
  then show "\<not> isl (div_discount_model c d g1 p1 g2 p2 g)"
    by (simp add: div_discount_model_returns)
next
  assume "1 \<le> p1 \<and> 1 \<le> p2 \<and> d = g"
  then show "div_discount_model c d g1 p1 g2 p2 g = Inr NonFin"
    by (simp add: div_discount_model_nonfinite)
next
  assume "1 \<le> p1 \<and> 1 \<le> p2 \<and> d < g \<and> 1 + d \<noteq> 0"
  then have "1 \<le> p1" "1 \<le> p2" "1 + d \<noteq> 0" "d \<noteq> g" by simp_all
  from div_discount_model_finite [OF this]
  show "div_discount_model c d g1 p1 g2 p2 g = Inr (Fin (
        sum_list (map (\<lambda>k. c * (1 + g1) ^ k / (1 + d) ^ k) [1..<Suc (nat p1)])
      + sum_list (map (\<lambda>k. c * (1 + g1) ^ nat p1 * (1 + g2) ^ k / (1 + d) ^ (nat p1 + k))
          [1..<Suc (nat p2)])
      + c * (1 + g1) ^ nat p1 * (1 + g2) ^ nat p2 * (1 + g) / (d - g)
          / (1 + d) ^ (nat p1 + nat p2 + 1)))"
    by (simp only: One_nat_def)
qed

theorem perpetuity_denominator_unchecked_witness:
  "\<not> isl (gordon_growth_model 2 (1/2) (1/4)) \<and>
   gordon_growth_model 2 (1/2) (1/4) = Inr (- 12) \<and>
   \<not> isl (div_discount_model 2 0 1 1 1 1 1) \<and>
   div_discount_model 2 0 1 1 1 1 1 = Inr (Fin (- 4)) \<and>
   div_discount_model 2 1 1 1 1 1 1 = Inr NonFin \<and>
   isl (gordon_growth_model 2 1 1)"
  using perpetuity_denominator_unchecked
      [where c = 2 and g = "1/2" and d = "1/4" and ?p1.0 = 1 and ?p2.0 = 1]
    perpetuity_denominator_unchecked
      [where c = 2 and g = 1 and d = 0 and ?p1.0 = 1 and ?p2.0 = 1 and ?g1.0 = 1 and ?g2.0 = 1]
    perpetuity_denominator_unchecked
      [where c = 2 and g = 1 and d = 1 and ?p1.0 = 1 and ?p2.0 = 1 and ?g1.0 = 1 and ?g2.0 = 1]
  by simp

text \<open>
  The claim as stated fails at \<open>discount < const_growth\<close>: both functions return a number.
\<close>

theorem perpetuity_denominator_unchecked_counterexample:
  "gordon_growth_model 100 (8/100) (3/100) = Inr (- 2160) \<and>
   div_discount_model 1 0 0 5 0 5 1 = Inr (Fin 8)"
  by (simp add: gordon_growth_model_def py_truediv_def div_discount_model_def arange_def
        np_getitem_def bind_res_def Let_def np_sum_def upt_rec)




subsection \<open>The earnings formula\<close>

text \<open>
  Claim C5. Every call of \<open>ben_graham_formula\<close>, whatever its arguments, raises
  \<^verbatim>\<open>NameError\<close> for the name \<^verbatim>\<open>safe\<close>, which is bound neither in the call nor in the
  module; no call returns a value.
\<close>

theorem ben_graham_formula_always_raises:
  "ben_graham_formula eps proj_growth risk_free_rate safe_eps safe_growth adjust =
     Inl (NameError ''safe'')"
  by (simp add: ben_graham_formula_def lookup_name_def module_globals_def bind_res_def Let_def)

text \<open>
  Claim C2. The claimed value \<open>eps[10] * (base + multiplier * proj_growth * 100 * 4.4) /
  (risk_free_rate * 100)\<close> is never returned: with an EPS history of 11 entries, growth
  0.05 and the default rate and flags, the call raises \<^verbatim>\<open>NameError\<close>.
\<close>

theorem ben_graham_formula_failing_input:
  "ben_graham_formula [1, 2, 3, 4, 5, 6, 7, 8, 9, 10, 11] (5/100) (25/1000) False False True =
     Inl (NameError ''safe'')"
  by (simp add: ben_graham_formula_def lookup_name_def module_globals_def bind_res_def Let_def)

subsection \<open>One trial of the cash-flow simulation\<close>

lemma np_std_nonneg: "0 \<le> np_std xs ddof"
  unfolding np_std_def by (intro real_sqrt_ge_zero divide_nonneg_nonneg sum_list_nonneg) auto

lemma np_getitem_nat:
  "k < length xs \<Longrightarrow> np_getitem xs (int k) = Inr (xs ! k)"
  by (simp add: np_getitem_def Let_def)


lemma compounding_with_noise:
  "map2 (+) (map (\<lambda>k. b * (1 + r) ^ k) (arange 1 11)) (map (\<lambda>k. s * g k) [0..<10]) =
   map (\<lambda>k. b * (1 + r) ^ Suc k + s * (g k :: real)) [0..<10]"
proof -
  have "arange 1 11 = map Suc [0..<10]"
    unfolding arange_def by (simp only: map_Suc_upt) simp
  then show ?thesis by (simp only: map_map comp_def zip_map_same)
qed

lemma dcf_project_value:
  assumes "10 \<le> length fcf"
  shows "dcf_project fcf r1 r2 g =
     Inr (map (\<lambda>k. fcf ! 9 * (1 + r1) ^ Suc k + np_std fcf 1 * g k) [0..<10] @
          map (\<lambda>k. (fcf ! 9 * (1 + r1) ^ Suc 9 + np_std fcf 1 * g 9) * (1 + r2) ^ Suc k +
                 np_std fcf 1 * g (k + 10)) [0..<10],
          \<lambda>k. g (k + 10 + 10))"
proof -
  have nine: "np_getitem fcf 9 = Inr (fcf ! 9)"
    using np_getitem_nat [of 9 fcf] assms by simp
  have std: "\<not> np_std fcf 1 < 0"
    using np_std_nonneg [of fcf 1] by simp
  let ?proj = "map (\<lambda>k. fcf ! 9 * (1 + r1) ^ Suc k + np_std fcf 1 * g k) [0..<10]"
  have p9: "np_getitem ?proj 9 = Inr (fcf ! 9 * (1 + r1) ^ Suc 9 + np_std fcf 1 * g 9)"
    using np_getitem_nat [of 9 ?proj] by (simp del: power_Suc)
  show ?thesis
    unfolding dcf_project_def random_normal_def
    by (simp only: nine std bind_res_def sum.case if_False prod.case Let_def
          compounding_with_noise p9)
qed

lemma dcf_project_returns:
  assumes "10 \<le> length fcf"
  shows "\<exists>pt. dcf_project fcf r1 r2 g = Inr (pt, \<lambda>k. g (k + 20)) \<and> length pt = 20"
  using dcf_project_value [OF assms, of r1 r2 g] by (simp add: add.assoc)


lemma dcf_discount_value:
  assumes "length pt = 20" and "1 + rate \<noteq> 0" and "shares \<noteq> 0"
  shows "dcf_discount pt rate shares = Fin ((\<Sum>k<20. pt ! k / (1 + rate) ^ Suc k) / shares)"
proof -
  let ?pw = "\<lambda>k. (1 + rate) ^ k"
  have ar: "arange 1 21 = map Suc [0..<20]"
    unfolding arange_def by (simp only: map_Suc_upt) simp
  have nz: "\<forall>y\<in>set (map ?pw (arange 1 21)). y \<noteq> 0" using assms(2) by simp
  have pt: "pt = map (\<lambda>k. pt ! k) [0..<20]"
    using map_nth [of pt] assms(1) by simp
  have "map2 (/) pt (map ?pw (arange 1 21)) = map (\<lambda>k. pt ! k / ?pw (Suc k)) [0..<20]"
    by (subst pt) (simp only: ar map_map comp_def zip_map_same)
  then have "sum_list (map2 (/) pt (map ?pw (arange 1 21))) = (\<Sum>k<20. pt ! k / ?pw (Suc k))"
    by (simp only: interv_sum_list_conv_sum_set_nat set_upt atLeast0LessThan)
  then show ?thesis
    unfolding dcf_discount_def Let_def
    by (simp only: map2_np_truediv_Fin [OF nz] np_sum_map_Fin) (simp add: assms(3))
qed

lemma dcf_trial_value:
  assumes "dcf_project fcf r1 r2 g = Inr (pt, g')"
  shows "dcf_trial fcf r1 r2 discount d shares g =
           Inr (dcf_discount pt discount shares, dcf_discount pt d shares, g')"
  by (simp add: dcf_trial_def assms bind_res_def)


subsection \<open>The hundred trials\<close>

lemma dcf_loop_value:
  assumes "10 \<le> length fcf"
  shows "\<exists>v1' v2'.
     dcf_loop [a..<a + n] fcf r1 r2 discount d shares (v1, v2, g) =
       Inr (v1', v2', \<lambda>k. g (k + 20 * n)) \<and>
     length v1' = length v1 \<and> length v2' = length v2 \<and>
     (\<forall>j<a. v1' ! j = v1 ! j \<and> v2' ! j = v2 ! j) \<and>
     (\<forall>i<n. a + i < length v1 \<longrightarrow> a + i < length v2 \<longrightarrow>
        (\<exists>pt g'. dcf_project fcf r1 r2 (\<lambda>k. g (k + 20 * i)) = Inr (pt, g') \<and> length pt = 20 \<and>
           v1' ! (a + i) = dcf_discount pt discount shares \<and>
           v2' ! (a + i) = dcf_discount pt d shares))"
proof (induction n arbitrary: a v1 v2 g)
  case 0
  then show ?case by simp
next
  case (Suc n)
  obtain pt where pt: "dcf_project fcf r1 r2 g = Inr (pt, \<lambda>k. g (k + 20))" and len: "length pt = 20"
    using dcf_project_returns [OF assms] by blast
  let ?val1 = "dcf_discount pt discount shares"
  let ?val2 = "dcf_discount pt d shares"
  let ?g1 = "\<lambda>k. g (k + 20)"
  have unfold: "[a..<a + Suc n] = a # [Suc a..<Suc a + n]"
    by (simp add: upt_rec)
  obtain v1' v2' where
    run: "dcf_loop [Suc a..<Suc a + n] fcf r1 r2 discount d shares
            (v1[a := ?val1], v2[a := ?val2], ?g1) = Inr (v1', v2', \<lambda>k. ?g1 (k + 20 * n))" and
    l1: "length v1' = length (v1[a := ?val1])" and l2: "length v2' = length (v2[a := ?val2])" and
    keep: "\<forall>j<Suc a. v1' ! j = v1[a := ?val1] ! j \<and> v2' ! j = v2[a := ?val2] ! j" and
    rest: "\<forall>i<n. Suc a + i < length (v1[a := ?val1]) \<longrightarrow> Suc a + i < length (v2[a := ?val2]) \<longrightarrow>
        (\<exists>pt g'. dcf_project fcf r1 r2 (\<lambda>k. ?g1 (k + 20 * i)) = Inr (pt, g') \<and> length pt = 20 \<and>
           v1' ! (Suc a + i) = dcf_discount pt discount shares \<and>
           v2' ! (Suc a + i) = dcf_discount pt d shares)"
    using Suc.IH [of "Suc a" "v1[a := ?val1]" "v2[a := ?val2]" ?g1] by blast
  have shift: "(\<lambda>k. ?g1 (k + 20 * m)) = (\<lambda>k. g (k + 20 * Suc m))" for m
  proof
    fix k
    have "k + 20 * m + 20 = k + 20 * Suc m" by simp
    then show "g (k + 20 * m + 20) = g (k + 20 * Suc m)" by (rule arg_cong)
  qed
  have whole: "dcf_loop [a..<a + Suc n] fcf r1 r2 discount d shares (v1, v2, g) =
      Inr (v1', v2', \<lambda>k. g (k + 20 * Suc n))"
    unfolding unfold
    by (simp only: dcf_loop.simps dcf_trial_value [OF pt] bind_res_def sum.case prod.case run shift)
  have old: "\<forall>j<a. v1' ! j = v1 ! j \<and> v2' ! j = v2 ! j"
    using keep by simp
  have new: "\<exists>pt g'. dcf_project fcf r1 r2 (\<lambda>k. g (k + 20 * i)) = Inr (pt, g') \<and> length pt = 20 \<and>
           v1' ! (a + i) = dcf_discount pt discount shares \<and>
           v2' ! (a + i) = dcf_discount pt d shares"
    if "i < Suc n" "a + i < length v1" "a + i < length v2" for i
  proof (cases i)
    case 0
    then show ?thesis using keep pt len that by simp
  next
    case (Suc m)
    then show ?thesis using rest that by (simp add: shift)
  qed
  show ?case using whole l1 l2 old new by simp
qed

subsection \<open>Preprocessing and growth rate\<close>



lemma dcf_prepare_value:
  assumes "2 \<le> length fcf0"
  shows "dcf_prepare fcf0 =
     Inr (if fcf0 ! 0 < 0 then fcf0[0 := np_mean fcf0] else fcf0,
          np_sub (np_power
            (np_truediv (Fin (last fcf0)) (if fcf0 ! 0 < 0 then np_mean fcf0 else fcf0 ! 0))
            (1 / (real (length fcf0) - 1))) 1)"
proof -
  let ?fcf = "if fcf0 ! 0 < 0 then fcf0[0 := np_mean fcf0] else fcf0"
  have len: "length ?fcf = length fcf0" by simp
  have ne: "fcf0 \<noteq> []" using assms by auto
  have idx: "int (length fcf0) - 1 = int (length fcf0 - 1)" using assms by simp
  have g0: "np_getitem fcf0 0 = Inr (fcf0 ! 0)"
    using np_getitem_nat [of 0 fcf0] ne by simp
  have gn: "np_getitem ?fcf (int (length fcf0) - 1) = Inr (last fcf0)"
  proof -
    have "np_getitem ?fcf (int (length fcf0 - 1)) = Inr (?fcf ! (length fcf0 - 1))"
      by (rule np_getitem_nat) (use assms in simp)
    moreover have "?fcf ! (length fcf0 - 1) = fcf0 ! (length fcf0 - 1)"
      using assms by simp
    ultimately show ?thesis using last_conv_nth [OF ne] by (simp only: idx)
  qed
  have gf: "np_getitem ?fcf 0 = Inr (if fcf0 ! 0 < 0 then np_mean fcf0 else fcf0 ! 0)"
    using np_getitem_nat [of 0 ?fcf] ne by simp
  have e: "py_truediv 1 (of_int (int (length fcf0) - 1)) = Inr (1 / (real (length fcf0) - 1))"
    using assms by (simp add: py_truediv_def)
  show ?thesis
    unfolding dcf_prepare_def Let_def
    by (simp only: g0 bind_res_def sum.case gn gf e)
qed


subsection \<open>The whole function\<close>

lemma discount_cash_flow_value:
  assumes "10 \<le> length fcf0"
  shows "\<exists>val1numbers val2numbers.
     discount_cash_flow g fcf0 r1 r2 discount shares beta =
       Inr (np_sub (np_power
              (np_truediv (Fin (last fcf0)) (if fcf0 ! 0 < 0 then np_mean fcf0 else fcf0 ! 0))
              (1 / (real (length fcf0) - 1))) 1,
            val1numbers, val2numbers) \<and>
     length val1numbers = 100 \<and> length val2numbers = 100 \<and>
     (\<forall>i<100. \<exists>pt g'.
        dcf_project (if fcf0 ! 0 < 0 then fcf0[0 := np_mean fcf0] else fcf0) r1 r2
          (\<lambda>k. g (k + 20 * i)) = Inr (pt, g') \<and> length pt = 20 \<and>
        val1numbers ! i = dcf_discount pt discount shares \<and>
        val2numbers ! i = dcf_discount pt (capm_rate beta) shares)"
proof -
  let ?fcf = "if fcf0 ! 0 < 0 then fcf0[0 := np_mean fcf0] else fcf0"
  have len: "10 \<le> length ?fcf" using assms by simp
  have two: "2 \<le> length fcf0" using assms by simp
  obtain v1 v2 where
    run: "dcf_loop [0..<0 + 100] ?fcf r1 r2 discount (capm_rate beta) shares
            (replicate 100 (Fin 0), replicate 100 (Fin 0), g) =
          Inr (v1, v2, \<lambda>k. g (k + 20 * 100))" and
    l1: "length v1 = length (replicate 100 (Fin 0 :: npfloat))" and
    l2: "length v2 = length (replicate 100 (Fin 0 :: npfloat))" and
    each: "\<forall>i<100. 0 + i < length (replicate 100 (Fin 0 :: npfloat)) \<longrightarrow>
        0 + i < length (replicate 100 (Fin 0 :: npfloat)) \<longrightarrow>
        (\<exists>pt g'. dcf_project ?fcf r1 r2 (\<lambda>k. g (k + 20 * i)) = Inr (pt, g') \<and> length pt = 20 \<and>
           v1 ! (0 + i) = dcf_discount pt discount shares \<and>
           v2 ! (0 + i) = dcf_discount pt (capm_rate beta) shares)"
    using dcf_loop_value [OF len, of 0 100 r1 r2 discount "capm_rate beta" shares
        "replicate 100 (Fin 0)" "replicate 100 (Fin 0)" g]
    by blast
  have "discount_cash_flow g fcf0 r1 r2 discount shares beta =
      Inr (np_sub (np_power
              (np_truediv (Fin (last fcf0)) (if fcf0 ! 0 < 0 then np_mean fcf0 else fcf0 ! 0))
              (1 / (real (length fcf0) - 1))) 1, v1, v2)"
    unfolding discount_cash_flow_def Let_def
    using run by (simp only: dcf_prepare_value [OF two] bind_res_def sum.case prod.case add_0)
  then show ?thesis using l1 l2 each by simp
qed


lemma dcf_first_phase_scaled:
  assumes "10 \<le> length fcf0"
  shows "\<exists>fcf cagr pt g'.
     dcf_prepare fcf0 = Inr (fcf, cagr) \<and>
     fcf = (if fcf0 ! 0 < 0 then fcf0[0 := np_mean fcf0] else fcf0) \<and>
     dcf_project fcf r1 r2 g = Inr (pt, g') \<and> length pt = 20 \<and>
     (\<forall>k<10. pt ! k = fcf0 ! 9 * (1 + r1) ^ Suc k + np_std fcf 1 * g k)"
proof -
  let ?fcf = "if fcf0 ! 0 < 0 then fcf0[0 := np_mean fcf0] else fcf0"
  have len: "10 \<le> length ?fcf" and two: "2 \<le> length fcf0" using assms by simp_all
  have nine: "?fcf ! 9 = fcf0 ! 9" by simp
  have "(map (\<lambda>k. ?fcf ! 9 * (1 + r1) ^ Suc k + np_std ?fcf 1 * g k) [0..<10] @ ys) ! k =
      fcf0 ! 9 * (1 + r1) ^ Suc k + np_std ?fcf 1 * g k" if "k < 10" for k ys
    using that by (simp only: nine nth_append length_map length_upt diff_zero if_True
        nth_map nth_upt add_0)
  then show ?thesis
    using dcf_prepare_value [OF two] dcf_project_value [OF len, of r1 r2 g]
    by (intro exI conjI) (assumption | simp)+
qed

lemma np_std_explicit:
  assumes "2 \<le> length xs"
  shows "np_std xs 1 =
     sqrt (sum_list (map (\<lambda>x. (x - sum_list xs / real (length xs))\<^sup>2) xs) /
           (real (length xs) - 1))"
  using assms unfolding np_std_def np_mean_def by (simp add: of_nat_diff)

lemma sqrt_unique_value: "0 \<le> y \<Longrightarrow> y * y = x \<Longrightarrow> sqrt x = (y::real)"
  using real_sqrt_unique [of y x] by (simp add: power2_eq_square)

text \<open>
  Claim C3, as amended. In every trial (whatever the state \<open>g\<close> of the random source when
  it starts), for a history of at least 10 entries, the first 10 projected values are the
  entry at index 9 of the history (the tenth, not the last) compounded at \<open>proj_rate1\<close> for
  years 1 to 10, each plus the next standard normal draw times the sample standard
  deviation, with divisor \<open>n - 1\<close>, of the history as it stands after the loss-year
  replacement of its first entry.
\<close>

theorem dcf_first_phase_projection:
  assumes "10 \<le> length fcf0"
  shows "\<exists>fcf cagr pt g'.
     dcf_prepare fcf0 = Inr (fcf, cagr) \<and>
     fcf = (if fcf0 ! 0 < 0 then fcf0[0 := sum_list fcf0 / real (length fcf0)] else fcf0) \<and>
     dcf_project fcf r1 r2 g = Inr (pt, g') \<and> length pt = 20 \<and>
     (\<forall>k<10. pt ! k = fcf0 ! 9 * (1 + r1) ^ Suc k +
        sqrt (sum_list (map (\<lambda>x. (x - sum_list fcf / real (length fcf))\<^sup>2) fcf) /
              (real (length fcf) - 1)) * g k)"
proof -
  obtain fcf cagr pt g' where
    prep: "dcf_prepare fcf0 = Inr (fcf, cagr)" and
    fcf: "fcf = (if fcf0 ! 0 < 0 then fcf0[0 := np_mean fcf0] else fcf0)" and
    proj: "dcf_project fcf r1 r2 g = Inr (pt, g')" and len: "length pt = 20" and
    vals: "\<forall>k<10. pt ! k = fcf0 ! 9 * (1 + r1) ^ Suc k + np_std fcf 1 * g k"
    using dcf_first_phase_scaled [OF assms, of r1 r2 g] by blast
  have "2 \<le> length fcf" using assms fcf by simp
  then have std: "np_std fcf 1 =
     sqrt (sum_list (map (\<lambda>x. (x - sum_list fcf / real (length fcf))\<^sup>2) fcf) /
           (real (length fcf) - 1))"
    by (rule np_std_explicit)
  have fcf': "fcf = (if fcf0 ! 0 < 0 then fcf0[0 := sum_list fcf0 / real (length fcf0)] else fcf0)"
    using fcf by (simp only: np_mean_def)
  show ?thesis
    using prep fcf' proj len vals unfolding std by blast
qed

theorem dcf_first_phase_projection_witness:
  "\<exists>fcf cagr pt g'.
     dcf_prepare [- 28, 4, 3, 9, 5, 5, 5, 6, 4, 7] = Inr (fcf, cagr) \<and>
     fcf = [2, 4, 3, 9, 5, 5, 5, 6, 4, 7] \<and>
     dcf_project fcf (1/10) 0 unit_draws = Inr (pt, g') \<and> length pt = 20 \<and>
     pt ! 0 = 97/10 \<and> pt ! 1 = 1047/100"
proof -
  let ?h = "[2, 4, 3, 9, 5, 5, 5, 6, 4, 7 :: real]"
  have dev: "sqrt (sum_list (map (\<lambda>x. (x - sum_list ?h / real (length ?h))\<^sup>2) ?h) /
        (real (length ?h) - 1)) = 2"
    by (rule sqrt_unique_value) (simp_all add: power2_eq_square)
  obtain fcf cagr pt g' where
    prep: "dcf_prepare [- 28, 4, 3, 9, 5, 5, 5, 6, 4, 7] = Inr (fcf, cagr)" and
    fcf: "fcf = ?h" and
    proj: "dcf_project fcf (1/10) 0 unit_draws = Inr (pt, g')" and len: "length pt = 20" and
    vals: "\<forall>k<10. pt ! k = 7 * (1 + 1/10) ^ Suc k +
        sqrt (sum_list (map (\<lambda>x. (x - sum_list fcf / real (length fcf))\<^sup>2) fcf) /
              (real (length fcf) - 1)) * unit_draws k"
    using dcf_first_phase_projection [of "[- 28, 4, 3, 9, 5, 5, 5, 6, 4, 7]" "1/10" 0 unit_draws]
    by auto
  have "pt ! 0 = 97/10" "pt ! 1 = 1047/100"
    using vals unfolding fcf dev by (simp_all add: unit_draws_def power2_eq_square)
  then show ?thesis using prep fcf proj len by blast
qed

text \<open>
  The claim as stated fails on a history of 11 entries whose last two differ: with every
  draw equal to 1 and a deviation of 1, the first projected value is \<open>3 * 1.1 + 1\<close>, where
  compounding the last entry would give \<open>4 * 1.1 + 1\<close>.
\<close>

theorem dcf_first_phase_projection_counterexample:
  "fst (projr (dcf_project [5, 3, 5, 3, 5, 3, 5, 3, 5, 3, 4] (1/10) 0 unit_draws)) ! 0 = 43/10 \<and>
   last [5, 3, 5, 3, 5, 3, 5, 3, 5, 3, 4 :: real] * (1 + 1/10) ^ 1 +
     sqrt (sum_list (map (\<lambda>x. (x - sum_list [5, 3, 5, 3, 5, 3, 5, 3, 5, 3, 4] /
              real (length [5, 3, 5, 3, 5, 3, 5, 3, 5, 3, 4 :: real]))\<^sup>2)
            [5, 3, 5, 3, 5, 3, 5, 3, 5, 3, 4]) /
          (real (length [5, 3, 5, 3, 5, 3, 5, 3, 5, 3, 4 :: real]) - 1)) * unit_draws 0 = 54/10"
proof -
  let ?h = "[5, 3, 5, 3, 5, 3, 5, 3, 5, 3, 4 :: real]"
  have dev: "sqrt (sum_list (map (\<lambda>x. (x - sum_list ?h / real (length ?h))\<^sup>2) ?h) /
        (real (length ?h) - 1)) = 1"
    by (rule sqrt_unique_value) (simp_all add: power2_eq_square)
  have std: "np_std ?h 1 = 1"
    using np_std_explicit [of ?h] dev by simp
  have "dcf_project ?h (1/10) 0 unit_draws =
      Inr (map (\<lambda>k. 3 * (1 + 1/10) ^ Suc k + 1 * unit_draws k) [0..<10] @
           map (\<lambda>k. (3 * (1 + 1/10) ^ Suc 9 + 1 * unit_draws 9) * (1 + 0) ^ Suc k +
                  1 * unit_draws (k + 10)) [0..<10],
           \<lambda>k. unit_draws (k + 10 + 10))"
    using dcf_project_value [of ?h "1/10" 0 unit_draws] unfolding std
    by (simp del: upt_Suc power_Suc)
  then have "fst (projr (dcf_project ?h (1/10) 0 unit_draws)) ! 0 = 43/10"
    by (simp add: unit_draws_def upt_rec)
  then show ?thesis unfolding dev by (simp add: unit_draws_def)
qed






text \<open>
  Claim C7. For every valid input (a history of at least 10 entries, \<open>shares \<noteq> 0\<close>, and
  neither discount rate equal to \<open>-1\<close>) the call returns two arrays of exactly 100
  estimates; trial \<open>i\<close> consumes the draws \<open>20 * i, \<dots>, 20 * i + 19\<close>, and its two estimates are
  the sums of its 20 projected values discounted at periods 1 to 20, under \<open>discount\<close> and
  under \<open>capm_rate beta = (2.5 + beta * (9.11 - 2.5)) / 100\<close>, each divided by \<open>shares\<close>.
\<close>

theorem discount_cash_flow_estimates:
  assumes "10 \<le> length fcf0" and "shares \<noteq> 0" and "1 + discount \<noteq> 0"
    and "1 + capm_rate beta \<noteq> 0"
  shows "\<exists>cagr val1numbers val2numbers.
     discount_cash_flow g fcf0 r1 r2 discount shares beta =
       Inr (cagr, val1numbers, val2numbers) \<and>
     length val1numbers = 100 \<and> length val2numbers = 100 \<and>
     capm_rate beta = (2.5 + beta * (9.11 - 2.5)) / 100 \<and>
     (\<forall>i<100. \<exists>pt g'.
        dcf_project (if fcf0 ! 0 < 0 then fcf0[0 := np_mean fcf0] else fcf0) r1 r2
          (\<lambda>k. g (k + 20 * i)) = Inr (pt, g') \<and> length pt = 20 \<and>
        val1numbers ! i = Fin ((\<Sum>k<20. pt ! k / (1 + discount) ^ Suc k) / shares) \<and>
        val2numbers ! i = Fin ((\<Sum>k<20. pt ! k / (1 + capm_rate beta) ^ Suc k) / shares))"
proof -
  obtain v1 v2 where
    res: "discount_cash_flow g fcf0 r1 r2 discount shares beta =
       Inr (np_sub (np_power
              (np_truediv (Fin (last fcf0)) (if fcf0 ! 0 < 0 then np_mean fcf0 else fcf0 ! 0))
              (1 / (real (length fcf0) - 1))) 1, v1, v2)" and
    lens: "length v1 = 100" "length v2 = 100" and
    each: "\<forall>i<100. \<exists>pt g'.
        dcf_project (if fcf0 ! 0 < 0 then fcf0[0 := np_mean fcf0] else fcf0) r1 r2
          (\<lambda>k. g (k + 20 * i)) = Inr (pt, g') \<and> length pt = 20 \<and>
        v1 ! i = dcf_discount pt discount shares \<and>
        v2 ! i = dcf_discount pt (capm_rate beta) shares"
    using discount_cash_flow_value [OF assms(1), of g r1 r2 discount shares beta] by blast
  have "\<exists>pt g'.
        dcf_project (if fcf0 ! 0 < 0 then fcf0[0 := np_mean fcf0] else fcf0) r1 r2
          (\<lambda>k. g (k + 20 * i)) = Inr (pt, g') \<and> length pt = 20 \<and>
        v1 ! i = Fin ((\<Sum>k<20. pt ! k / (1 + discount) ^ Suc k) / shares) \<and>
        v2 ! i = Fin ((\<Sum>k<20. pt ! k / (1 + capm_rate beta) ^ Suc k) / shares)"
    if "i < 100" for i
  proof -
    from each [rule_format, OF that] obtain pt g' where
      pt: "dcf_project (if fcf0 ! 0 < 0 then fcf0[0 := np_mean fcf0] else fcf0) r1 r2
          (\<lambda>k. g (k + 20 * i)) = Inr (pt, g')" and len: "length pt = 20" and
      v: "v1 ! i = dcf_discount pt discount shares"
         "v2 ! i = dcf_discount pt (capm_rate beta) shares"
      by blast
    show ?thesis
      using pt len v dcf_discount_value [OF len assms(3) assms(2)]
        dcf_discount_value [OF len assms(4) assms(2)]
      by (intro exI conjI) (assumption | simp only:)+
  qed
  then show ?thesis using res lens by (simp add: capm_rate_def)
qed

theorem discount_cash_flow_estimates_witness:
  "\<exists>cagr val1numbers val2numbers.
     discount_cash_flow zero_draws [1, 2, 3, 4, 5, 6, 7, 8, 9, 10, 11] (1/10) (1/20) (1/12) 50 1 =
       Inr (cagr, val1numbers, val2numbers) \<and>
     length val1numbers = 100 \<and> length val2numbers = 100"
  using discount_cash_flow_estimates
    [of "[1, 2, 3, 4, 5, 6, 7, 8, 9, 10, 11]" 50 "1/12" 1 zero_draws "1/10" "1/20"]
  by (simp add: capm_rate_def) blast

text \<open>
  Claim C9. Two calls on the same history of at least 10 entries return the same \<open>cagr\<close>,
  whatever the projection rates, discount rate, share count, beta and random draws are.
\<close>

theorem discount_cash_flow_cagr_invariant:
  assumes "10 \<le> length fcf0"
  shows "\<exists>cagr v1 v2 w1 w2.
     discount_cash_flow g fcf0 r1 r2 discount shares beta = Inr (cagr, v1, v2) \<and>
     discount_cash_flow g' fcf0 r1' r2' discount' shares' beta' = Inr (cagr, w1, w2)"
  using discount_cash_flow_value [OF assms, of g r1 r2 discount shares beta]
    discount_cash_flow_value [OF assms, of g' r1' r2' discount' shares' beta']
  by blast

theorem discount_cash_flow_cagr_invariant_witness:
  "\<exists>cagr v1 v2 w1 w2.
     discount_cash_flow zero_draws [1, 2, 3, 4, 5, 6, 7, 8, 9, 10, 11] 0 0 0 1 0 =
       Inr (cagr, v1, v2) \<and>
     discount_cash_flow (\<lambda>k. 1) [1, 2, 3, 4, 5, 6, 7, 8, 9, 10, 11] (1/10) (1/20) (1/12) 50 2 =
       Inr (cagr, w1, w2)"
  using discount_cash_flow_cagr_invariant
    [of "[1, 2, 3, 4, 5, 6, 7, 8, 9, 10, 11]" zero_draws 0 0 0 1 0 "\<lambda>k. 1" "1/10" "1/20" "1/12" 50 2]
  by simp

end
